theory Spec2Isabelle
  imports Complex_Main
begin

section \<open>Data model of the simplification engine\<close>

text \<open>
  The engine of \<^verbatim>\<open>simplify_algorithm.py\<close> (class \<^verbatim>\<open>Simplify\<close>) is embedded as
  pure functions with the state passed explicitly. Python integers are \<open>int\<close>,
  distances and tolerances are \<open>real\<close>, a raised exception is the \<open>Inl\<close> branch of a
  sum.
\<close>

datatype py_error = IndexError | ValueError

text \<open>
  \<^verbatim>\<open>RbGeom\<close>: the geometry to simplify. \<open>qgs_geom\<close> is the live vertex sequence of the
  line string, \<open>id_rb\<close> the identifier used by the spatial index (field \<^verbatim>\<open>id\<close>).
\<close>

record 'p rb_geom =
  id_rb :: nat
  qgs_geom :: "'p list"
  is_simplest :: bool

text \<open>
  What the engine makes observable besides its results: the notices pushed to the
  feedback object, the text printed, and the calls to the validators of
  \<^verbatim>\<open>GeoSimUtil\<close> with their outcome, in program order.
\<close>

datatype 'p event =
    Info_possibly_non_simple 'p
  | Print_polygonize_not_valid
  | Check_simplicity bool
  | Check_intersection bool
  | Check_sidedness bool
  | Validated int int bool
  | Info_iteration int
  | Info_vertice_deleted int
  | Call_validate_integrity bool

text \<open>
  The collaborators the source imports and that are no part of it are parameters:
  the QGIS geometry engine (\<open>distance\<close> of a point to the chord of two points,
  \<open>chord_length\<close> of the two point line, \<open>polygonize\<close> for the unary union followed by
  the polygonization of a closed line, \<open>isSimple\<close>, \<open>empty_point\<close> for the \<^verbatim>\<open>QgsPoint()\<close>
  that \<^verbatim>\<open>vertexAt\<close> gives outside the line), the constant \<^verbatim>\<open>Epsilon.ZERO_RELATIVE\<close>,
  the query of the spatial index (a function of the current geometries, which the
  index mirrors), the three validators of \<^verbatim>\<open>GeoSimUtil\<close>, the conversions between
  features and geometries, the integrity check of the index, and the cancellation
  poll of the feedback object (the answer to the n-th poll).
\<close>

record ('q, 'f, 'p, 'g) engine =
  distance :: "'p \<Rightarrow> 'p \<Rightarrow> 'p \<Rightarrow> real"
  chord_length :: "'p \<Rightarrow> 'p \<Rightarrow> real"
  polygonize :: "'p list \<Rightarrow> 'g"
  isSimple :: "'g \<Rightarrow> bool"
  empty_point :: 'p
  ZERO_RELATIVE :: real
  get_segment_intersect :: "'p rb_geom list \<Rightarrow> nat \<Rightarrow> 'p list \<Rightarrow> 'g list \<times> 'g list"
  validate_simplicity :: "'g list \<Rightarrow> 'p \<times> 'p \<Rightarrow> bool"
  validate_intersection :: "'g list \<Rightarrow> 'p \<times> 'p \<Rightarrow> bool"
  validate_sidedness :: "'g list \<Rightarrow> 'g \<Rightarrow> bool"
  create_gs_feature :: "'q list \<Rightarrow> 'f list"
  get_rb_geom :: "'f \<Rightarrow> 'p rb_geom list"
  get_qgs_feature :: "'f \<Rightarrow> 'p rb_geom list \<Rightarrow> 'q"
  validate_integrity :: "'p rb_geom list \<Rightarrow> bool"
  isCanceled :: "nat \<Rightarrow> bool"

section \<open>Python lists\<close>

text \<open>\<^verbatim>\<open>xs[i]\<close>: a negative index counts from the end, an index out of range raises.\<close>

definition py_index :: "'a list \<Rightarrow> int \<Rightarrow> py_error + 'a" where
  "py_index xs i =
     (let n = int (length xs) in
      if 0 \<le> i \<and> i < n then Inr (xs ! nat i)
      else if - n \<le> i \<and> i < 0 then Inr (xs ! nat (n + i))
      else Inl IndexError)"

text \<open>A list comprehension whose elements may raise: the first exception wins.\<close>

fun collect :: "('e + 'a) list \<Rightarrow> 'e + 'a list" where
  "collect [] = Inr []"
| "collect (Inl e # rs) = Inl e"
| "collect (Inr x # rs) = (case collect rs of Inl e \<Rightarrow> Inl e | Inr xs \<Rightarrow> Inr (x # xs))"

text \<open>\<^verbatim>\<open>max(xs)\<close> of a non-empty list and \<^verbatim>\<open>xs.index(v)\<close>, the first position of \<open>v\<close>.\<close>

definition py_max :: "real list \<Rightarrow> py_error + real" where
  "py_max xs = (case xs of [] \<Rightarrow> Inl ValueError | x # ys \<Rightarrow> Inr (fold max ys x))"

fun list_index :: "'a list \<Rightarrow> 'a \<Rightarrow> py_error + nat" where
  "list_index [] v = Inl ValueError"
| "list_index (x # xs) v =
     (if x = v then Inr 0
      else case list_index xs v of Inl e \<Rightarrow> Inl e | Inr n \<Rightarrow> Inr (Suc n))"

section \<open>The farthest point of a span\<close>

text \<open>
  \<^verbatim>\<open>Simplify.find_farthest_point\<close>: the index and the distance of the point of
  \<open>qgs_points\<close> strictly between \<open>first\<close> and \<open>lasti\<close> (the source's \<^verbatim>\<open>last\<close>) that is
  farthest from the chord.
\<close>

definition find_farthest_point ::
  "('q, 'f, 'p, 'g) engine \<Rightarrow> 'p list \<Rightarrow> int \<Rightarrow> int \<Rightarrow> py_error + (int \<times> real)" where
  "find_farthest_point env qgs_points first lasti =
     (if lasti - first \<ge> 2 then
        (case py_index qgs_points first of Inl e \<Rightarrow> Inl e | Inr p_first \<Rightarrow>
         case py_index qgs_points lasti of Inl e \<Rightarrow> Inl e | Inr p_last \<Rightarrow>
         case collect (map (py_index qgs_points) [first + 1..lasti - 1]) of Inl e \<Rightarrow> Inl e | Inr ps \<Rightarrow>
           let distances = map (distance env p_first p_last) ps in
           case py_max distances of Inl e \<Rightarrow> Inl e | Inr farthest_dist \<Rightarrow>
           case list_index distances farthest_dist of Inl e \<Rightarrow> Inl e | Inr n \<Rightarrow>
             Inr (int n + first + 1, farthest_dist))
      else Inr (first, 0))"

lemma py_index_in_range:
  "0 \<le> i \<Longrightarrow> i < int (length xs) \<Longrightarrow> py_index xs i = Inr (xs ! nat i)"
  by (simp add: py_index_def)

section \<open>The constraint validator\<close>

text \<open>
  \<^verbatim>\<open>isClosed()\<close> of a QGIS line string: it has a point, and its start point and its end
  point have the same position. \<^verbatim>\<open>vertexAt(i)\<close> gives an empty point outside the line.
\<close>

definition isClosed :: "'p list \<Rightarrow> bool" where
  "isClosed pts = (pts \<noteq> [] \<and> hd pts = last pts)"

definition vertexAt :: "('q, 'f, 'p, 'g) engine \<Rightarrow> 'p list \<Rightarrow> int \<Rightarrow> 'p" where
  "vertexAt env pts i = (if 0 \<le> i \<and> i < int (length pts) then pts ! nat i else empty_point env)"

text \<open>
  \<^verbatim>\<open>Simplify.validate_constraints\<close>, lines 467 to 536. \<open>rb_geoms\<close> is the state of the
  collection that the spatial index mirrors, \<open>sim_geom\<close> the geometry of the span. The
  result is the flag with the events in program order.
\<close>

definition validate_constraints ::
  "('q, 'f, 'p, 'g) engine \<Rightarrow> 'p rb_geom list \<Rightarrow> 'p rb_geom \<Rightarrow> int \<Rightarrow> int
     \<Rightarrow> py_error + (bool \<times> 'p event list)" where
  "validate_constraints env rb_geoms sim_geom first lasti =
     (let qgs_line_string = qgs_geom sim_geom in
      if isClosed qgs_line_string \<and> int (length qgs_line_string) - (lasti - first - 1) \<le> 3
      then Inr (False, [])
      else
        let qgs_points = map (vertexAt env qgs_line_string) [first..lasti] in
        if qgs_points = [] then Inl IndexError
        else
          let new_subline = (hd qgs_points, last qgs_points);
              (with_itself, with_others) =
                 get_segment_intersect env rb_geoms (id_rb sim_geom) qgs_points;
              (valid1, ev1) =
                 (if chord_length env (fst new_subline) (snd new_subline) \<ge> ZERO_RELATIVE env
                  then let r = validate_simplicity env with_itself new_subline
                       in (r, [Check_simplicity r])
                  else (True, [Info_possibly_non_simple (hd qgs_points)]));
              (valid2, ev2) =
                 (if valid1 \<and> length with_others \<ge> 1
                  then let r = validate_intersection env with_others new_subline
                       in (r, [Check_intersection r])
                  else (valid1, []));
              (valid3, ev3) =
                 (if valid2 \<and> length with_others \<ge> 1
                  then let qgs_geom_polygonize = polygonize env (qgs_points @ [hd qgs_points])
                       in if isSimple env qgs_geom_polygonize
                          then let r = validate_sidedness env with_others qgs_geom_polygonize
                               in (r, [Check_sidedness r])
                          else (False, [Print_polygonize_not_valid])
                  else (valid2, []))
          in Inr (valid3, ev1 @ ev2 @ ev3))"

section \<open>Deleting the vertices of a span\<close>

text \<open>
  Modelled from the spec: \<^verbatim>\<open>GsCollection.delete_vertex\<close> of \<^verbatim>\<open>geo_sim_util\<close>, which is
  not among the sources. The spec: it "removes the interior vertices of the given
  index span from the geometry's live vertex sequence" and updates the index, which
  here is a function of the geometries. The engine calls it with the first and the
  last vertex to remove, \<^verbatim>\<open>first + 1\<close> and \<^verbatim>\<open>last - 1\<close>.
\<close>

definition delete_vertex :: "'p rb_geom \<Rightarrow> int \<Rightarrow> int \<Rightarrow> 'p rb_geom" where
  "delete_vertex sim_geom v_id_start v_id_end =
     sim_geom\<lparr>qgs_geom :=
       take (nat v_id_start) (qgs_geom sim_geom) @ drop (nat (v_id_end + 1)) (qgs_geom sim_geom)\<rparr>"

section \<open>Processing one geometry\<close>

type_synonym span = "int \<times> int"

text \<open>
  The state of the loop of \<^verbatim>\<open>process_line\<close>: the work stack (its top is the head of
  the list), the geometries of the collection, the count of deleted vertices and the
  events so far.
\<close>

record 'p pl_state =
  stack :: "span list"
  geoms :: "'p rb_geom list"
  nbr_vertice_deleted :: int
  trace :: "'p event list"

text \<open>
  Lines 559 to 577: the spans pushed before the loop. \<^verbatim>\<open>stack.append\<close> puts the new
  span on top.
\<close>

definition init_stack :: "'p list \<Rightarrow> span list" where
  "init_stack qgs_points =
     (let num_points = int (length qgs_points);
          lasti = num_points - 1
      in if isClosed qgs_points then
           (if num_points \<ge> 5 then
              let mid_index = num_points div 2
              in [(mid_index, num_points - 1), (0, mid_index)]
            else [])
         else [(0, lasti)])"

text \<open>
  Lines 580 to 596: one turn of the loop, on a stack that is not empty. \<open>qgs_points\<close>
  is the list of points read before the loop, \<open>k\<close> the position of the geometry in the
  collection.
\<close>

definition process_step ::
  "('q, 'f, 'p, 'g) engine \<Rightarrow> real \<Rightarrow> 'p list \<Rightarrow> nat \<Rightarrow> 'p pl_state \<Rightarrow> py_error + 'p pl_state" where
  "process_step env tolerance qgs_points k st =
     (case stack st of
        [] \<Rightarrow> Inr st
      | (first, lasti) # rest \<Rightarrow>
          if first + 1 < lasti then
            (case find_farthest_point env qgs_points first lasti of
               Inl e \<Rightarrow> Inl e
             | Inr (farthest_index, farthest_dist) \<Rightarrow>
                 if farthest_dist \<le> tolerance then
                   (case validate_constraints env (geoms st) (geoms st ! k) first lasti of
                      Inl e \<Rightarrow> Inl e
                    | Inr (valid, evs) \<Rightarrow>
                        if valid then
                          Inr (st\<lparr>stack := rest,
                                  geoms := (geoms st)
                                    [k := delete_vertex (geoms st ! k) (first + 1) (lasti - 1)],
                                  nbr_vertice_deleted := nbr_vertice_deleted st + (lasti - first - 1),
                                  trace := trace st @ evs @ [Validated first lasti True]\<rparr>)
                        else
                          (case find_farthest_point env qgs_points first lasti of
                             Inl e \<Rightarrow> Inl e
                           | Inr (farthest_index2, farthest_dist2) \<Rightarrow>
                               Inr (st\<lparr>stack :=
                                         (if farthest_dist2 \<le> tolerance
                                          then (farthest_index2, lasti) # (first, farthest_index2) # rest
                                          else rest),
                                       geoms := (geoms st)[k := (geoms st ! k)\<lparr>is_simplest := False\<rparr>],
                                       trace := trace st @ evs @ [Validated first lasti False]\<rparr>)))
                 else Inr (st\<lparr>stack := (farthest_index, lasti) # (first, farthest_index) # rest\<rparr>))
          else Inr (st\<lparr>stack := rest\<rparr>))"

text \<open>The measure that the loop decreases: a span of \<open>n\<close> segments weighs \<open>2 n - 1\<close>.\<close>

definition span_weight :: "span \<Rightarrow> nat" where
  "span_weight s = (if snd s - fst s \<le> 1 then 1 else nat (2 * (snd s - fst s) - 1))"

definition stack_weight :: "span list \<Rightarrow> nat" where
  "stack_weight ss = sum_list (map span_weight ss)"

lemma collect_length: "collect rs = Inr xs \<Longrightarrow> length xs = length rs"
proof (induction rs arbitrary: xs)
  case Nil
  then show ?case by simp
next
  case (Cons r rs)
  then show ?case by (cases r) (auto split: sum.splits)
qed

lemma list_index_first:
  "list_index xs v = Inr n \<Longrightarrow> n < length xs \<and> xs ! n = v \<and> (\<forall>m<n. xs ! m \<noteq> v)"
proof (induction xs arbitrary: n)
  case Nil
  then show ?case by simp
next
  case (Cons x xs)
  show ?case
  proof (cases "x = v")
    case True
    with Cons.prems show ?thesis by simp
  next
    case False
    with Cons.prems obtain n' where n': "list_index xs v = Inr n'" "n = Suc n'"
      by (auto split: sum.splits)
    from Cons.IH[OF n'(1)] False n'(2) show ?thesis
      by (auto simp: nth_Cons split: nat.splits)
  qed
qed

lemma py_max_greatest: "py_max xs = Inr m \<Longrightarrow> m \<in> set xs \<and> (\<forall>x\<in>set xs. x \<le> m)"
proof (cases xs)
  case Nil
  assume "py_max xs = Inr m"
  with Nil show ?thesis by (simp add: py_max_def)
next
  case (Cons x ys)
  assume "py_max xs = Inr m"
  with Cons have "m = fold max ys x"
    by (simp add: py_max_def)
  also have "\<dots> = Max (set xs)"
    unfolding Cons by (rule Max.set_eq_fold[symmetric])
  finally have m: "m = Max (set xs)" .
  from Cons have "set xs \<noteq> {}" by simp
  with m show ?thesis
    using Max_in[of "set xs"] Max_ge[of "set xs"] by auto
qed

lemma find_farthest_point_unfold:
  assumes "find_farthest_point env qgs_points first lasti = Inr (fi, fd)" and "first + 1 < lasti"
  shows "\<exists>pf pl ps n.
           py_index qgs_points first = Inr pf \<and> py_index qgs_points lasti = Inr pl \<and>
           collect (map (py_index qgs_points) [first + 1..lasti - 1]) = Inr ps \<and>
           py_max (map (distance env pf pl) ps) = Inr fd \<and>
           list_index (map (distance env pf pl) ps) fd = Inr n \<and>
           fi = int n + first + 1"
  using assms by (auto simp: find_farthest_point_def Let_def split: sum.splits if_splits)

lemma find_farthest_point_between:
  assumes "find_farthest_point env qgs_points first lasti = Inr (fi, fd)" and "first + 1 < lasti"
  shows "first < fi \<and> fi < lasti"
proof -
  from find_farthest_point_unfold[OF assms] obtain pf pl ps n where
    ps: "collect (map (py_index qgs_points) [first + 1..lasti - 1]) = Inr ps" and
    n: "list_index (map (distance env pf pl) ps) fd = Inr n" and
    fi: "fi = int n + first + 1"
    by blast
  from list_index_first[OF n] collect_length[OF ps] have "n < nat (lasti - first - 1)"
    by simp
  with fi assms(2) show ?thesis by linarith
qed

lemma process_step_cases [consumes 2, case_names short split collapse reject]:
  assumes "process_step env tolerance qgs_points k st = Inr st'"
    and "stack st = (first, lasti) # rest"
  obtains
    (short) "\<not> first + 1 < lasti" "st' = st\<lparr>stack := rest\<rparr>"
  | (split) fi fd where "first + 1 < lasti"
      "find_farthest_point env qgs_points first lasti = Inr (fi, fd)" "\<not> fd \<le> tolerance"
      "st' = st\<lparr>stack := (fi, lasti) # (first, fi) # rest\<rparr>"
  | (collapse) fi fd evs where "first + 1 < lasti"
      "find_farthest_point env qgs_points first lasti = Inr (fi, fd)" "fd \<le> tolerance"
      "validate_constraints env (geoms st) (geoms st ! k) first lasti = Inr (True, evs)"
      "st' = st\<lparr>stack := rest,
                geoms := (geoms st)[k := delete_vertex (geoms st ! k) (first + 1) (lasti - 1)],
                nbr_vertice_deleted := nbr_vertice_deleted st + (lasti - first - 1),
                trace := trace st @ evs @ [Validated first lasti True]\<rparr>"
  | (reject) fi fd evs where "first + 1 < lasti"
      "find_farthest_point env qgs_points first lasti = Inr (fi, fd)" "fd \<le> tolerance"
      "validate_constraints env (geoms st) (geoms st ! k) first lasti = Inr (False, evs)"
      "st' = st\<lparr>stack := (fi, lasti) # (first, fi) # rest,
                geoms := (geoms st)[k := (geoms st ! k)\<lparr>is_simplest := False\<rparr>],
                trace := trace st @ evs @ [Validated first lasti False]\<rparr>"
proof (cases "first + 1 < lasti")
  case False
  with assms have "st' = st\<lparr>stack := rest\<rparr>" by (simp add: process_step_def)
  with False show ?thesis by (rule short)
next
  case lt: True
  with assms obtain fi fd where ffp: "find_farthest_point env qgs_points first lasti = Inr (fi, fd)"
    by (cases "find_farthest_point env qgs_points first lasti") (auto simp: process_step_def)
  show ?thesis
  proof (cases "fd \<le> tolerance")
    case False
    with assms lt ffp have "st' = st\<lparr>stack := (fi, lasti) # (first, fi) # rest\<rparr>"
      by (simp add: process_step_def)
    with lt ffp False show ?thesis by (rule split)
  next
    case le: True
    with assms lt ffp obtain valid evs where
      vc: "validate_constraints env (geoms st) (geoms st ! k) first lasti = Inr (valid, evs)"
      by (cases "validate_constraints env (geoms st) (geoms st ! k) first lasti")
         (auto simp: process_step_def)
    show ?thesis
    proof (cases valid)
      case True
      with assms lt ffp le vc show ?thesis
        by (intro collapse[of fi fd evs]) (simp_all add: process_step_def)
    next
      case False
      with assms lt ffp le vc show ?thesis
        by (intro reject[of fi fd evs]) (simp_all add: process_step_def)
    qed
  qed
qed

lemma span_weight_split:
  assumes "first < fi" and "fi < lasti"
  shows "span_weight (fi, lasti) + span_weight (first, fi) < span_weight (first, lasti)"
  using assms by (auto simp: span_weight_def)

lemma span_weight_pos: "0 < span_weight s"
  by (simp add: span_weight_def)

lemma process_step_decreases:
  assumes "process_step env tolerance qgs_points k st = Inr st'" and "stack st \<noteq> []"
  shows "stack_weight (stack st') < stack_weight (stack st)"
proof -
  from assms(2) obtain first lasti rest where st: "stack st = (first, lasti) # rest"
    by (cases "stack st") auto
  from assms(1) st show ?thesis
  proof (cases rule: process_step_cases)
    case short
    with st show ?thesis by (simp add: stack_weight_def span_weight_pos)
  next
    case (split fi fd)
    from find_farthest_point_between[OF split(2) split(1)] span_weight_split[of first fi lasti]
    show ?thesis using st split(4) by (simp add: stack_weight_def)
  next
    case (collapse fi fd evs)
    with st show ?thesis by (simp add: stack_weight_def span_weight_pos)
  next
    case (reject fi fd evs)
    from find_farthest_point_between[OF reject(2) reject(1)] span_weight_split[of first fi lasti]
    show ?thesis using st reject(5) by (simp add: stack_weight_def)
  qed
qed

text \<open>Lines 579 to 596: the loop runs until the stack is empty.\<close>

function process_loop ::
  "('q, 'f, 'p, 'g) engine \<Rightarrow> real \<Rightarrow> 'p list \<Rightarrow> nat \<Rightarrow> 'p pl_state \<Rightarrow> py_error + 'p pl_state" where
  "process_loop env tolerance qgs_points k st =
     (if stack st = [] then Inr st
      else case process_step env tolerance qgs_points k st of
             Inl e \<Rightarrow> Inl e
           | Inr st' \<Rightarrow> process_loop env tolerance qgs_points k st')"
  by pat_completeness auto

termination
  by (relation "measure (\<lambda>(env, tolerance, qgs_points, k, st). stack_weight (stack st))")
     (auto simp: process_step_decreases)

declare process_loop.simps [simp del]

text \<open>
  \<^verbatim>\<open>Simplify.process_line\<close>: the geometry at position \<open>k\<close> is marked, its points are read
  once, the stack is initialised and the loop runs. The source returns the count of
  the final state; the geometries are changed in place.
\<close>

definition process_line ::
  "('q, 'f, 'p, 'g) engine \<Rightarrow> real \<Rightarrow> 'p rb_geom list \<Rightarrow> nat \<Rightarrow> py_error + 'p pl_state" where
  "process_line env tolerance rb_geoms k =
     (let qgs_points = qgs_geom (rb_geoms ! k)
      in process_loop env tolerance qgs_points k
           \<lparr>stack = init_stack qgs_points,
            geoms = rb_geoms[k := (rb_geoms ! k)\<lparr>is_simplest := True\<rparr>],
            nbr_vertice_deleted = 0,
            trace = []\<rparr>)"

section \<open>The passes over the geometries\<close>

text \<open>
  \<^verbatim>\<open>RbResults\<close>, lines 197 to 216. A field that the constructor sets to \<^verbatim>\<open>None\<close> is an
  option; \<open>nbr_vertice_deleted_rb\<close> is the field \<^verbatim>\<open>nbr_vertice_deleted\<close>.
\<close>

record 'q rb_results =
  in_nbr_features :: "nat option"
  out_nbr_features :: "nat option"
  nbr_vertice_deleted_rb :: int
  qgs_features_out :: "'q list option"
  nbr_pass :: int
  is_structure_valid :: "bool option"

text \<open>
  The part of the \<^verbatim>\<open>Simplify\<close> object that \<^verbatim>\<open>_simplify_lines\<close> changes: the geometries
  (\<^verbatim>\<open>self.rb_geoms\<close>, which the collection shares), the results, the notices and events
  so far, and the number of cancellation polls made. The progress bar is written
  and never read, and is left out.
\<close>

record ('q, 'p) sl_state =
  sl_geoms :: "'p rb_geom list"
  rb_results :: "'q rb_results"
  feedback_log :: "'p event list"
  polls :: nat

text \<open>
  Lines 449 to 457: the loop over the geometries of one pass, as a recursion over
  the positions still to visit, with the count of the pass so far. The feedback
  object is polled before each geometry, and a cancellation leaves the loop.
\<close>

fun pass_loop ::
  "('q, 'f, 'p, 'g) engine \<Rightarrow> real \<Rightarrow> nat list \<Rightarrow> ('q, 'p) sl_state \<Rightarrow> int
     \<Rightarrow> py_error + (('q, 'p) sl_state \<times> int)" where
  "pass_loop env tolerance [] st nbr_deleted = Inr (st, nbr_deleted)"
| "pass_loop env tolerance (i # rest) st nbr_deleted =
     (if isCanceled env (polls st) then Inr (st\<lparr>polls := polls st + 1\<rparr>, nbr_deleted)
      else
        let st1 = st\<lparr>polls := polls st + 1\<rparr> in
        if \<not> is_simplest (sl_geoms st1 ! i) then
          (case process_line env tolerance (sl_geoms st1) i of
             Inl e \<Rightarrow> Inl e
           | Inr pl \<Rightarrow>
               pass_loop env tolerance rest
                 (st1\<lparr>sl_geoms := geoms pl, feedback_log := feedback_log st1 @ trace pl\<rparr>)
                 (nbr_deleted + nbr_vertice_deleted pl))
        else pass_loop env tolerance rest st1 nbr_deleted)"

text \<open>Lines 444 to 459: one pass, with the number of vertices it deleted.\<close>

definition run_pass ::
  "('q, 'f, 'p, 'g) engine \<Rightarrow> real \<Rightarrow> ('q, 'p) sl_state
     \<Rightarrow> py_error + (('q, 'p) sl_state \<times> int)" where
  "run_pass env tolerance st =
     (let st1 = st\<lparr>rb_results := (rb_results st)\<lparr>nbr_pass := nbr_pass (rb_results st) + 1\<rparr>,
                   feedback_log := feedback_log st @ [Info_iteration (nbr_pass (rb_results st) + 1)]\<rparr>
      in case pass_loop env tolerance [0 ..< length (sl_geoms st1)] st1 0 of
           Inl e \<Rightarrow> Inl e
         | Inr (st2, nbr_deleted) \<Rightarrow>
             Inr (st2\<lparr>feedback_log := feedback_log st2 @ [Info_vertice_deleted nbr_deleted]\<rparr>,
                  nbr_deleted))"

text \<open>
  \<^verbatim>\<open>Simplify._simplify_lines\<close>: passes until one deletes nothing. The result is \<open>None\<close>
  when the loop does not end.
\<close>

partial_function (option) simplify_lines ::
  "('q, 'f, 'p, 'g) engine \<Rightarrow> real \<Rightarrow> ('q, 'p) sl_state \<Rightarrow> (py_error + ('q, 'p) sl_state) option" where
  "simplify_lines env tolerance st =
     (case run_pass env tolerance st of
        Inl e \<Rightarrow> Some (Inl e)
      | Inr (st3, nbr_deleted) \<Rightarrow>
          if nbr_deleted = 0 then Some (Inr st3)
          else simplify_lines env tolerance
                 (st3\<lparr>rb_results := (rb_results st3)
                    \<lparr>nbr_vertice_deleted_rb := nbr_vertice_deleted_rb (rb_results st3) + nbr_deleted\<rparr>\<rparr>))"

text \<open>\<^verbatim>\<open>Simplify.pre_simplification_process\<close>: the geometries of all features, in order.\<close>

definition pre_simplification_process ::
  "('q, 'f, 'p, 'g) engine \<Rightarrow> 'f list \<Rightarrow> 'p rb_geom list" where
  "pre_simplification_process env gs_features = concat (map (get_rb_geom env) gs_features)"

text \<open>
  \<^verbatim>\<open>Simplify.reduce\<close>, lines 329 to 382, without the profiler. The flag
  \<open>validate_structure\<close> is stored by the constructor and not read again; the integrity
  check is guarded by the field \<^verbatim>\<open>is_structure_valid\<close> of the results. The results come
  with the notices and events of the run.
\<close>

definition reduce ::
  "('q, 'f, 'p, 'g) engine \<Rightarrow> 'q list \<Rightarrow> real \<Rightarrow> bool
     \<Rightarrow> (py_error + ('q rb_results \<times> 'p event list)) option" where
  "reduce env qgs_in_features tolerance validate_structure =
     (let rb_results0 = \<lparr>in_nbr_features = None, out_nbr_features = None,
                         nbr_vertice_deleted_rb = 0, qgs_features_out = None,
                         nbr_pass = 0, is_structure_valid = None\<rparr>;
          gs_features = create_gs_feature env qgs_in_features;
          rb_results1 = rb_results0\<lparr>in_nbr_features := Some (length qgs_in_features)\<rparr>;
          rb_geoms = pre_simplification_process env gs_features
      in case simplify_lines env tolerance
                \<lparr>sl_geoms = rb_geoms, rb_results = rb_results1, feedback_log = [], polls = 0\<rparr> of
           None \<Rightarrow> None
         | Some (Inl e) \<Rightarrow> Some (Inl e)
         | Some (Inr st) \<Rightarrow>
             let features_out = map (\<lambda>gs_feature. get_qgs_feature env gs_feature (sl_geoms st))
                                  gs_features;
                 rb_results2 = (rb_results st)\<lparr>out_nbr_features := Some (length features_out),
                                                qgs_features_out := Some features_out\<rparr>;
                 log2 = (if is_structure_valid rb_results2 = Some True
                         then feedback_log st @
                              [Call_validate_integrity (validate_integrity env (sl_geoms st))]
                         else feedback_log st)
             in Some (Inr (rb_results2, log2)))"

section \<open>Notions for the statements\<close>

text \<open>
  The distance of the point at index \<open>j\<close> to the chord from index \<open>first\<close> to index
  \<open>lasti\<close>, for indices inside the list.
\<close>

definition chord_dist :: "('q, 'f, 'p, 'g) engine \<Rightarrow> 'p list \<Rightarrow> int \<Rightarrow> int \<Rightarrow> int \<Rightarrow> real" where
  "chord_dist env pts first lasti j =
     distance env (pts ! nat first) (pts ! nat lasti) (pts ! nat j)"

text \<open>
  The state before the loop, and the states that the loop of a call of
  \<^verbatim>\<open>process_line\<close> on the geometry at position \<open>k\<close> of \<open>rb_geoms\<close> goes through.
\<close>

definition pl_start :: "'p rb_geom list \<Rightarrow> nat \<Rightarrow> 'p pl_state" where
  "pl_start rb_geoms k =
     \<lparr>stack = init_stack (qgs_geom (rb_geoms ! k)),
      geoms = rb_geoms[k := (rb_geoms ! k)\<lparr>is_simplest := True\<rparr>],
      nbr_vertice_deleted = 0,
      trace = []\<rparr>"

inductive within_process_line ::
  "('q, 'f, 'p, 'g) engine \<Rightarrow> real \<Rightarrow> 'p rb_geom list \<Rightarrow> nat \<Rightarrow> 'p pl_state \<Rightarrow> bool"
  for env tolerance rb_geoms k where
    start: "within_process_line env tolerance rb_geoms k (pl_start rb_geoms k)"
  | turn: "within_process_line env tolerance rb_geoms k st \<Longrightarrow> stack st \<noteq> [] \<Longrightarrow>
           process_step env tolerance (qgs_geom (rb_geoms ! k)) k st = Inr st' \<Longrightarrow>
           within_process_line env tolerance rb_geoms k st'"

text \<open>
  The invariant of the loop. For every span on the stack: its indices are inside
  the current line, the current line and the points read before the loop agree up
  to its last index, and every span below it is a proper interval that ends at or
  before its first index.
\<close>

fun stack_inv :: "'p list \<Rightarrow> 'p list \<Rightarrow> span list \<Rightarrow> bool" where
  "stack_inv snap cur [] = True"
| "stack_inv snap cur ((f, l) # r) =
     (0 \<le> f \<and> l < int (length cur) \<and> l < int (length snap) \<and>
      take (nat (l + 1)) cur = take (nat (l + 1)) snap \<and>
      (\<forall>(f', l') \<in> set r. f' \<le> l' \<and> l' \<le> f) \<and>
      stack_inv snap cur r)"

definition pl_inv :: "'p rb_geom list \<Rightarrow> nat \<Rightarrow> 'p pl_state \<Rightarrow> bool" where
  "pl_inv rb_geoms k st =
     (let snap = qgs_geom (rb_geoms ! k); cur = qgs_geom (geoms st ! k)
      in length (geoms st) = length rb_geoms \<and>
         (\<forall>j < length rb_geoms. j \<noteq> k \<longrightarrow> geoms st ! j = rb_geoms ! j) \<and>
         id_rb (geoms st ! k) = id_rb (rb_geoms ! k) \<and>
         stack_inv snap cur (stack st) \<and>
         int (length cur) + nbr_vertice_deleted st = int (length snap) \<and>
         0 \<le> nbr_vertice_deleted st \<and>
         isClosed cur = isClosed snap \<and>
         (isClosed snap \<and> 4 \<le> length snap \<longrightarrow> 4 \<le> length cur))"

text \<open>
  Read from the top: every span below a span is a proper interval that ends at or
  before the first index of that span.
\<close>

fun ordered_stack :: "span list \<Rightarrow> bool" where
  "ordered_stack [] = True"
| "ordered_stack ((f, l) # r) = ((\<forall>(f', l') \<in> set r. f' \<le> l' \<and> l' \<le> f) \<and> ordered_stack r)"

definition total_vertices :: "'p rb_geom list \<Rightarrow> int" where
  "total_vertices gs = sum_list (map (\<lambda>g. int (length (qgs_geom g))) gs)"

text \<open>
  A geometry after some turns, against the geometry before: the identifier and the
  closedness are kept, the line is not longer, and a ring of at least 4 points still
  has at least 4 points.
\<close>

definition geom_shrinks :: "'p rb_geom \<Rightarrow> 'p rb_geom \<Rightarrow> bool" where
  "geom_shrinks g g' =
     (id_rb g' = id_rb g \<and> length (qgs_geom g') \<le> length (qgs_geom g) \<and>
      isClosed (qgs_geom g') = isClosed (qgs_geom g) \<and>
      (isClosed (qgs_geom g) \<and> 4 \<le> length (qgs_geom g) \<longrightarrow> 4 \<le> length (qgs_geom g')))"

definition coll_shrinks :: "'p rb_geom list \<Rightarrow> 'p rb_geom list \<Rightarrow> bool" where
  "coll_shrinks gs gs' =
     (length gs' = length gs \<and> (\<forall>j < length gs. geom_shrinks (gs ! j) (gs' ! j)))"

definition keeps_simplest :: "'p rb_geom list \<Rightarrow> 'p rb_geom list \<Rightarrow> bool" where
  "keeps_simplest gs gs' = (\<forall>j < length gs. is_simplest (gs ! j) \<longrightarrow> gs' ! j = gs ! j)"

text \<open>
  The collections that a run can go through from a collection \<open>gs0\<close>: they arise by
  turns of the loop of \<^verbatim>\<open>process_line\<close>, on any geometry of the collection at hand.
\<close>

inductive within_run ::
  "('q, 'f, 'p, 'g) engine \<Rightarrow> real \<Rightarrow> 'p rb_geom list \<Rightarrow> 'p rb_geom list \<Rightarrow> bool"
  for env tolerance gs0 where
    begin_run: "within_run env tolerance gs0 gs0"
  | in_line: "within_run env tolerance gs0 gs \<Longrightarrow> k < length gs \<Longrightarrow>
              within_process_line env tolerance gs k pl \<Longrightarrow>
              within_run env tolerance gs0 (geoms pl)"

text \<open>
  The passes that \<^verbatim>\<open>_simplify_lines\<close> makes from a state, with the number of vertices
  that each pass deleted: the loop stops after the first pass that deletes nothing,
  and adds the count of every other pass to the results.
\<close>

inductive run_passes ::
  "('q, 'f, 'p, 'g) engine \<Rightarrow> real \<Rightarrow> ('q, 'p) sl_state \<Rightarrow> int list \<Rightarrow> ('q, 'p) sl_state \<Rightarrow> bool"
  for env tolerance where
    final: "run_pass env tolerance st = Inr (st3, 0) \<Longrightarrow> run_passes env tolerance st [0] st3"
  | again: "run_pass env tolerance st = Inr (st3, n) \<Longrightarrow> n \<noteq> 0 \<Longrightarrow>
            run_passes env tolerance
              (st3\<lparr>rb_results := (rb_results st3)
                 \<lparr>nbr_vertice_deleted_rb := nbr_vertice_deleted_rb (rb_results st3) + n\<rparr>\<rparr>) ns st' \<Longrightarrow>
            run_passes env tolerance st (n # ns) st'"

text \<open>
  The spans that the loop of \<^verbatim>\<open>process_line\<close> examines on the points \<open>pts\<close>, from the
  stack \<open>stk\<close>, as long as it only splits: the spans of the stack and, for an
  examined span whose farthest point is above the tolerance, its two halves at that
  point.
\<close>

inductive examined ::
  "('q, 'f, 'p, 'g) engine \<Rightarrow> real \<Rightarrow> 'p list \<Rightarrow> span list \<Rightarrow> span \<Rightarrow> bool"
  for env tolerance pts stk where
    pushed: "s \<in> set stk \<Longrightarrow> examined env tolerance pts stk s"
  | left_half: "examined env tolerance pts stk (first, lasti) \<Longrightarrow> first + 1 < lasti \<Longrightarrow>
           find_farthest_point env pts first lasti = Inr (fi, fd) \<Longrightarrow> tolerance < fd \<Longrightarrow>
           examined env tolerance pts stk (first, fi)"
  | right_half: "examined env tolerance pts stk (first, lasti) \<Longrightarrow> first + 1 < lasti \<Longrightarrow>
           find_farthest_point env pts first lasti = Inr (fi, fd) \<Longrightarrow> tolerance < fd \<Longrightarrow>
           examined env tolerance pts stk (fi, lasti)"

text \<open>
  No span of the line \<open>pts\<close> qualifies for collapse: every span of more than two
  points that the loop examines from the initial stack has its farthest point above
  the tolerance.
\<close>

definition never_qualifies :: "('q, 'f, 'p, 'g) engine \<Rightarrow> real \<Rightarrow> 'p list \<Rightarrow> bool" where
  "never_qualifies env tolerance pts =
     (\<forall>first lasti. examined env tolerance pts (init_stack pts) (first, lasti) \<and> first + 1 < lasti \<longrightarrow>
        (\<exists>fi fd. find_farthest_point env pts first lasti = Inr (fi, fd) \<and> tolerance < fd))"

text \<open>
  The geometry at position \<open>i\<close> is handed to \<^verbatim>\<open>process_line\<close> by the first pass from the
  state \<open>st\<close>: it is not marked as simplest and none of the polls up to its own
  answers that the run is cancelled.
\<close>

definition processed :: "('q, 'f, 'p, 'g) engine \<Rightarrow> ('q, 'p) sl_state \<Rightarrow> nat \<Rightarrow> bool" where
  "processed env st i =
     (i < length (sl_geoms st) \<and> \<not> is_simplest (sl_geoms st ! i) \<and>
      (\<forall>j \<le> i. \<not> isCanceled env (polls st + j)))"

section \<open>A concrete engine: one feature in the plane\<close>

text \<open>
  The parameters instantiated for evaluation: points of the plane with exact
  arithmetic, the distance of a point to a segment, and a data set of a single
  feature, for which the index returns no segment and the simplicity validator
  accepts.
\<close>

definition segment_distance :: "real \<times> real \<Rightarrow> real \<times> real \<Rightarrow> real \<times> real \<Rightarrow> real" where
  "segment_distance a b p =
     (let dx = fst b - fst a; dy = snd b - snd a; l2 = dx * dx + dy * dy;
          t = (if l2 = 0 then 0
               else max 0 (min 1 (((fst p - fst a) * dx + (snd p - snd a) * dy) / l2)));
          cx = fst a + t * dx; cy = snd a + t * dy
      in sqrt ((fst p - cx) * (fst p - cx) + (snd p - cy) * (snd p - cy)))"

definition plane_engine ::
  "((real \<times> real) list, (real \<times> real) list, real \<times> real, (real \<times> real) list) engine" where
  "plane_engine =
     \<lparr>distance = segment_distance,
      chord_length = (\<lambda>a b. segment_distance a a b),
      polygonize = (\<lambda>ps. ps),
      isSimple = (\<lambda>g. distinct (butlast g)),
      empty_point = (0, 0),
      ZERO_RELATIVE = 1 / 1000000,
      get_segment_intersect = (\<lambda>gs i sub. ([], [])),
      validate_simplicity = (\<lambda>gs chord. True),
      validate_intersection = (\<lambda>gs chord. True),
      validate_sidedness = (\<lambda>gs poly. True),
      create_gs_feature = (\<lambda>qs. qs),
      get_rb_geom = (\<lambda>f. [\<lparr>id_rb = 0, qgs_geom = f, is_simplest = False\<rparr>]),
      get_qgs_feature = (\<lambda>f gs. qgs_geom (hd gs)),
      validate_integrity = (\<lambda>gs. True),
      isCanceled = (\<lambda>n. False)\<rparr>"

text \<open>
  The inputs of the evaluations: an open line with one bend and what a collapse
  leaves of it, an open line that comes back to its start point, a closed sliver
  whose vertex 2 is next to vertex 0, a ring of five points and what the collapse of
  its second half leaves of it, and the results object before the run of one feature.
\<close>

definition bend3 :: "(real \<times> real) rb_geom" where
  "bend3 = \<lparr>id_rb = 0, qgs_geom = [(0, 0), (1, 1), (2, 0)], is_simplest = False\<rparr>"

definition bend2 :: "(real \<times> real) rb_geom" where
  "bend2 = \<lparr>id_rb = 0, qgs_geom = [(0, 0), (2, 0)], is_simplest = True\<rparr>"

definition spike4 :: "(real \<times> real) rb_geom" where
  "spike4 = \<lparr>id_rb = 0, qgs_geom = [(0, 0), (1, 1), (0, 0), (3, 0)], is_simplest = False\<rparr>"

definition sliver4 :: "(real \<times> real) rb_geom" where
  "sliver4 = \<lparr>id_rb = 0, qgs_geom = [(0, 0), (1, 0), (0, 1 / 10000000), (0, 0)],
              is_simplest = False\<rparr>"

definition diamond5 :: "(real \<times> real) rb_geom" where
  "diamond5 = \<lparr>id_rb = 0, qgs_geom = [(0, 0), (1, - 1), (2, 0), (1, 1), (0, 0)],
               is_simplest = False\<rparr>"

definition diamond4 :: "(real \<times> real) rb_geom" where
  "diamond4 = \<lparr>id_rb = 0, qgs_geom = [(0, 0), (1, - 1), (2, 0), (0, 0)], is_simplest = True\<rparr>"

definition results0 :: "(real \<times> real) list rb_results" where
  "results0 = \<lparr>in_nbr_features = Some 1, out_nbr_features = None, nbr_vertice_deleted_rb = 0,
               qgs_features_out = None, nbr_pass = 0, is_structure_valid = None\<rparr>"

definition zigzag4 :: "(real \<times> real) rb_geom" where
  "zigzag4 = \<lparr>id_rb = 0, qgs_geom = [(0, 0), (1, 1), (1, 0), (2, 0)], is_simplest = False\<rparr>"

lemma map_update_same: "f y = f (xs ! k) \<Longrightarrow> map f (xs[k := y]) = map f xs"
proof (cases "k < length xs")
  case True
  assume "f y = f (xs ! k)"
  with True have "map f (xs[k := y]) = (map f xs)[k := map f xs ! k]"
    by (simp add: map_update)
  then show ?thesis by simp
next
  case False
  then show ?thesis by (simp add: list_update_beyond)
qed

section \<open>Initialisation of the stack\<close>

text \<open>
  C9. In \<^verbatim>\<open>process_line\<close> the loop starts from the stack \<open>init_stack\<close> of the points
  of the geometry. For an open geometry that stack is exactly the span from 0 to the
  last index; for a closed geometry of at least 5 points it is exactly the two spans
  \<open>(0, mid)\<close> and \<open>(mid, last index)\<close> with \<open>mid = numPoints div 2\<close>, the second on top;
  for a closed geometry of fewer than 5 points it is empty, and \<^verbatim>\<open>process_line\<close>
  returns at once with no vertex deleted and the points of every geometry as they
  were.
\<close>

theorem process_line_init_stack:
  "process_line env tolerance rb_geoms k =
     process_loop env tolerance (qgs_geom (rb_geoms ! k)) k
       \<lparr>stack = init_stack (qgs_geom (rb_geoms ! k)),
        geoms = rb_geoms[k := (rb_geoms ! k)\<lparr>is_simplest := True\<rparr>],
        nbr_vertice_deleted = 0, trace = []\<rparr> \<and>
   (\<not> isClosed pts \<longrightarrow> init_stack pts = [(0, int (length pts) - 1)]) \<and>
   (isClosed pts \<and> 5 \<le> length pts \<longrightarrow>
      init_stack pts =
        [(int (length pts) div 2, int (length pts) - 1), (0, int (length pts) div 2)]) \<and>
   (isClosed pts \<and> length pts < 5 \<longrightarrow> init_stack pts = []) \<and>
   (isClosed (qgs_geom (rb_geoms ! k)) \<and> length (qgs_geom (rb_geoms ! k)) < 5 \<longrightarrow>
      (\<exists>st. process_line env tolerance rb_geoms k = Inr st \<and> stack st = [] \<and>
            nbr_vertice_deleted st = 0 \<and>
            map qgs_geom (geoms st) = map qgs_geom rb_geoms))"
proof -
  have upd: "map qgs_geom (rb_geoms[k := (rb_geoms ! k)\<lparr>is_simplest := True\<rparr>]) = map qgs_geom rb_geoms"
    by (rule map_update_same) simp
  show ?thesis
    by (auto simp: process_line_def init_stack_def Let_def process_loop.simps upd)
qed

theorem process_line_init_stack_witness:
  "init_stack ([(0, 0), (1, 1), (2, 0)] :: (real \<times> real) list) = [(0, 2)] \<and>
   init_stack ([(0, 0), (2, 0), (2, 2), (0, 2), (0, 0)] :: (real \<times> real) list) = [(2, 4), (0, 2)] \<and>
   init_stack ([(0, 0), (2, 0), (2, 2), (0, 0)] :: (real \<times> real) list) = [] \<and>
   (\<exists>st. process_line plane_engine 1
           [\<lparr>id_rb = 0, qgs_geom = [(0, 0), (2, 0), (2, 2), (0, 0)], is_simplest = False\<rparr>] 0 = Inr st \<and>
         stack st = [] \<and> nbr_vertice_deleted st = 0 \<and>
         map qgs_geom (geoms st) = [[(0, 0), (2, 0), (2, 2), (0, 0)]])"
  using process_line_init_stack[of plane_engine 1
          "[\<lparr>id_rb = 0, qgs_geom = [(0, 0), (2, 0), (2, 2), (0, 0)], is_simplest = False\<rparr>]" 0
          "[(0, 0), (1, 1), (2, 0)] :: (real \<times> real) list"]
        process_line_init_stack[of plane_engine 1
          "[\<lparr>id_rb = 0, qgs_geom = [(0, 0), (2, 0), (2, 2), (0, 0)], is_simplest = False\<rparr>]" 0
          "[(0, 0), (2, 0), (2, 2), (0, 2), (0, 0)] :: (real \<times> real) list"]
        process_line_init_stack[of plane_engine 1
          "[\<lparr>id_rb = 0, qgs_geom = [(0, 0), (2, 0), (2, 2), (0, 0)], is_simplest = False\<rparr>]" 0
          "[(0, 0), (2, 0), (2, 2), (0, 0)] :: (real \<times> real) list"]
  by (simp add: isClosed_def)

section \<open>The order of the checks of the validator\<close>

lemma upto_nonempty: "first \<le> lasti \<Longrightarrow> map f [first..lasti] \<noteq> []"
  by (simp add: upto_Nil)

lemma one_le_length_iff: "(Suc 0 \<le> length xs) = (xs \<noteq> [])"
  by (cases xs) auto

text \<open>
  C1, as amended. For a span with \<open>first \<le> last\<close>, \<^verbatim>\<open>validate_constraints\<close> runs its
  checks in the fixed order degeneracy guard, simplicity, cross-feature intersection,
  sidedness, and stops at the first check that fails: the events of the result are
  the checks run, in this order, and no check follows a failed one. The
  intersection and sidedness checks run only when the index returned segments of
  other geometries. The result is true only if the guard and every check that
  applies pass. It is false whenever segments of other geometries were returned and
  the polygonization of the closed-up subline is not simple. (With no segment of
  another geometry the polygonization is never computed and the result can be true:
  see the counterexample.)
\<close>

theorem validate_constraints_order:
  assumes "first \<le> lasti"
  shows
  "let pts = map (vertexAt env (qgs_geom g)) [first..lasti];
       chord = (hd pts, last pts);
       itself = fst (get_segment_intersect env rb_geoms (id_rb g) pts);
       others = snd (get_segment_intersect env rb_geoms (id_rb g) pts);
       poly = polygonize env (pts @ [hd pts]);
       degenerate = (isClosed (qgs_geom g) \<and> int (length (qgs_geom g)) - (lasti - first - 1) \<le> 3);
       long_chord = (chord_length env (hd pts) (last pts) \<ge> ZERO_RELATIVE env);
       ev1 = (if long_chord then Check_simplicity True else Info_possibly_non_simple (hd pts))
   in validate_constraints env rb_geoms g first lasti =
        (if degenerate then Inr (False, [])
         else if long_chord \<and> \<not> validate_simplicity env itself chord
           then Inr (False, [Check_simplicity False])
         else if others = [] then Inr (True, [ev1])
         else if \<not> validate_intersection env others chord
           then Inr (False, [ev1, Check_intersection False])
         else if \<not> isSimple env poly
           then Inr (False, [ev1, Check_intersection True, Print_polygonize_not_valid])
         else Inr (validate_sidedness env others poly,
                   [ev1, Check_intersection True,
                    Check_sidedness (validate_sidedness env others poly)])) \<and>
      (\<forall>evs. validate_constraints env rb_geoms g first lasti = Inr (True, evs) \<longrightarrow>
         \<not> degenerate \<and> (long_chord \<longrightarrow> validate_simplicity env itself chord) \<and>
         (others \<noteq> [] \<longrightarrow> validate_intersection env others chord \<and> isSimple env poly \<and>
            validate_sidedness env others poly)) \<and>
      (others \<noteq> [] \<and> \<not> isSimple env poly \<longrightarrow>
         (\<exists>evs. validate_constraints env rb_geoms g first lasti = Inr (False, evs)))"
  using upto_nonempty[OF assms, of "vertexAt env (qgs_geom g)"]
  by (auto simp: validate_constraints_def Let_def case_prod_beta one_le_length_iff)

lemma plane_engine_fields:
  "distance plane_engine = segment_distance"
  "chord_length plane_engine = (\<lambda>a b. segment_distance a a b)"
  "polygonize plane_engine = (\<lambda>ps. ps)"
  "isSimple plane_engine = (\<lambda>g. distinct (butlast g))"
  "empty_point plane_engine = (0, 0)"
  "ZERO_RELATIVE plane_engine = 1 / 1000000"
  "get_segment_intersect plane_engine = (\<lambda>gs i sub. ([], []))"
  "validate_simplicity plane_engine = (\<lambda>gs chord. True)"
  "validate_intersection plane_engine = (\<lambda>gs chord. True)"
  "validate_sidedness plane_engine = (\<lambda>gs poly. True)"
  "isCanceled plane_engine = (\<lambda>n. False)"
  by (simp_all add: plane_engine_def)

lemma seg_dist_vals:
  "segment_distance (0, 0) (0, 0) (2, 0) = 2"
  "segment_distance (0, 0) (2, 0) (1, 1) = 1"
  "segment_distance (0, 0) (2, 0) (1, 0) = 0"
  by (simp_all add: segment_distance_def Let_def)

lemma vertexAt_vals:
  "map (vertexAt env [a, b, c]) [0..2] = [a, b, c]"
  "map (vertexAt env [a, b, c, d, e]) [0..4] = [a, b, c, d, e]"
  by (simp_all add: vertexAt_def upto.simps)

theorem validate_constraints_order_witness:
  "(0 :: int) \<le> 2 \<and>
   validate_constraints
     (plane_engine\<lparr>get_segment_intersect := (\<lambda>gs i sub. ([], [[(5, 5), (6, 6)]]))\<rparr>)
     [bend3] bend3 0 2 =
   Inr (True, [Check_simplicity True, Check_intersection True, Check_sidedness True])"
  using validate_constraints_order[of 0 2
     "plane_engine\<lparr>get_segment_intersect := (\<lambda>gs i sub. ([], [[(5, 5), (6, 6)]]))\<rparr>"
     bend3 "[bend3]"]
  by (simp add: plane_engine_fields bend3_def vertexAt_vals isClosed_def seg_dist_vals Let_def)

text \<open>
  The claim C1 as stated fails: for a line that visits a point twice, with no other
  geometry near it, the polygonization of the closed-up subline is not simple and
  the validator returns true.
\<close>

theorem validate_constraints_polygonize_counterexample:
  "\<not> isSimple plane_engine
       (polygonize plane_engine ([(0, 0), (1, 1), (1, 0), (1, 1), (2, 0)] @ [(0, 0)])) \<and>
   validate_constraints plane_engine
     [\<lparr>id_rb = 0, qgs_geom = [(0, 0), (1, 1), (1, 0), (1, 1), (2, 0)], is_simplest = False\<rparr>]
     \<lparr>id_rb = 0, qgs_geom = [(0, 0), (1, 1), (1, 0), (1, 1), (2, 0)], is_simplest = False\<rparr> 0 4 =
   Inr (True, [Check_simplicity True])"
  by (simp add: validate_constraints_def plane_engine_fields vertexAt_vals isClosed_def
        seg_dist_vals Let_def)

section \<open>Chords shorter than the relative zero\<close>

lemma hd_map_upto: "first \<le> lasti \<Longrightarrow> hd (map f [first..lasti]) = f first"
  by (subst upto_rec1) simp_all

lemma last_map_upto: "first \<le> lasti \<Longrightarrow> last (map f [first..lasti]) = f lasti"
  by (subst upto_rec2) simp_all

lemma short_chord_result:
  assumes "first \<le> lasti"
    and "\<not> (isClosed (qgs_geom g) \<and> int (length (qgs_geom g)) - (lasti - first - 1) \<le> 3)"
    and "chord_length env (vertexAt env (qgs_geom g) first) (vertexAt env (qgs_geom g) lasti)
           < ZERO_RELATIVE env"
  shows
  "let pts = map (vertexAt env (qgs_geom g)) [first..lasti];
       chord = (vertexAt env (qgs_geom g) first, vertexAt env (qgs_geom g) lasti);
       others = snd (get_segment_intersect env rb_geoms (id_rb g) pts);
       poly = polygonize env (pts @ [vertexAt env (qgs_geom g) first])
   in validate_constraints env rb_geoms g first lasti =
        Inr (others = [] \<or>
               validate_intersection env others chord \<and> isSimple env poly \<and>
               validate_sidedness env others poly,
             Info_possibly_non_simple (vertexAt env (qgs_geom g) first) #
               (if others = [] then []
                else if \<not> validate_intersection env others chord then [Check_intersection False]
                else if \<not> isSimple env poly
                  then [Check_intersection True, Print_polygonize_not_valid]
                else [Check_intersection True,
                      Check_sidedness (validate_sidedness env others poly)]))"
proof -
  let ?pts = "map (vertexAt env (qgs_geom g)) [first..lasti]"
  have ne: "?pts \<noteq> []" by (rule upto_nonempty[OF assms(1)])
  have h: "hd ?pts = vertexAt env (qgs_geom g) first" by (rule hd_map_upto[OF assms(1)])
  have l: "last ?pts = vertexAt env (qgs_geom g) lasti" by (rule last_map_upto[OF assms(1)])
  from assms(3) have short: "\<not> ZERO_RELATIVE env \<le> chord_length env (hd ?pts) (last ?pts)"
    by (simp add: h l)
  show ?thesis
    using ne short assms(2)
    by (simp add: validate_constraints_def Let_def case_prod_beta one_le_length_iff h l
          del: upto.simps)
qed

lemma vertexAt_simplicity_update [simp]:
  "vertexAt (env\<lparr>validate_simplicity := vs\<rparr>) = vertexAt env"
  by (simp add: vertexAt_def fun_eq_iff)

text \<open>
  C8, as amended. For a span with \<open>first \<le> last\<close> that passes the degeneracy guard and
  whose chord is shorter than \<^verbatim>\<open>ZERO_RELATIVE\<close>: the validator returns a result and no
  exception; its first event is the notice; the simplicity validator is not called
  (no such event, and the result does not depend on it); the flag is decided by the
  remaining checks alone, which run as they do after a passed simplicity test.
\<close>

theorem validate_constraints_short_chord:
  assumes "first \<le> lasti"
    and "\<not> (isClosed (qgs_geom g) \<and> int (length (qgs_geom g)) - (lasti - first - 1) \<le> 3)"
    and "chord_length env (vertexAt env (qgs_geom g) first) (vertexAt env (qgs_geom g) lasti)
           < ZERO_RELATIVE env"
  shows
  "(let pts = map (vertexAt env (qgs_geom g)) [first..lasti];
       chord = (vertexAt env (qgs_geom g) first, vertexAt env (qgs_geom g) lasti);
       others = snd (get_segment_intersect env rb_geoms (id_rb g) pts);
       poly = polygonize env (pts @ [vertexAt env (qgs_geom g) first])
   in validate_constraints env rb_geoms g first lasti =
        Inr (others = [] \<or>
               validate_intersection env others chord \<and> isSimple env poly \<and>
               validate_sidedness env others poly,
             Info_possibly_non_simple (vertexAt env (qgs_geom g) first) #
               (if others = [] then []
                else if \<not> validate_intersection env others chord then [Check_intersection False]
                else if \<not> isSimple env poly
                  then [Check_intersection True, Print_polygonize_not_valid]
                else [Check_intersection True,
                      Check_sidedness (validate_sidedness env others poly)]))) \<and>
   (\<forall>vs. validate_constraints (env\<lparr>validate_simplicity := vs\<rparr>) rb_geoms g first lasti =
         validate_constraints env rb_geoms g first lasti)"
proof (intro conjI allI)
  show "let pts = map (vertexAt env (qgs_geom g)) [first..lasti];
       chord = (vertexAt env (qgs_geom g) first, vertexAt env (qgs_geom g) lasti);
       others = snd (get_segment_intersect env rb_geoms (id_rb g) pts);
       poly = polygonize env (pts @ [vertexAt env (qgs_geom g) first])
   in validate_constraints env rb_geoms g first lasti =
        Inr (others = [] \<or>
               validate_intersection env others chord \<and> isSimple env poly \<and>
               validate_sidedness env others poly,
             Info_possibly_non_simple (vertexAt env (qgs_geom g) first) #
               (if others = [] then []
                else if \<not> validate_intersection env others chord then [Check_intersection False]
                else if \<not> isSimple env poly
                  then [Check_intersection True, Print_polygonize_not_valid]
                else [Check_intersection True,
                      Check_sidedness (validate_sidedness env others poly)]))"
    by (rule short_chord_result[OF assms])
next
  fix vs
  let ?env = "env\<lparr>validate_simplicity := vs\<rparr>"
  have short: "chord_length ?env (vertexAt ?env (qgs_geom g) first) (vertexAt ?env (qgs_geom g) lasti)
                 < ZERO_RELATIVE ?env"
    using assms(3) by simp
  show "validate_constraints ?env rb_geoms g first lasti =
        validate_constraints env rb_geoms g first lasti"
    using short_chord_result[OF assms(1,2) short, of rb_geoms]
          short_chord_result[OF assms, of rb_geoms]
    by (simp add: Let_def del: upto.simps)
qed

theorem validate_constraints_short_chord_witness:
  "validate_constraints plane_engine [spike4] spike4 0 2 =
     Inr (True, [Info_possibly_non_simple (0, 0)]) \<and>
   validate_constraints (plane_engine\<lparr>validate_simplicity := (\<lambda>gs chord. False)\<rparr>) [spike4] spike4 0 2 =
     validate_constraints plane_engine [spike4] spike4 0 2"
  using validate_constraints_short_chord[of 0 2 spike4 plane_engine "[spike4]"]
  by (simp add: plane_engine_fields spike4_def vertexAt_def isClosed_def segment_distance_def Let_def)

text \<open>
  The claim C8 as stated fails for a span that the degeneracy guard rejects: the
  chord from vertex 0 to vertex 2 of this closed sliver is shorter than the relative
  zero, and the validator returns false before anything else, with no notice.
\<close>

theorem validate_constraints_short_chord_counterexample:
  "chord_length plane_engine (vertexAt plane_engine (qgs_geom sliver4) 0)
       (vertexAt plane_engine (qgs_geom sliver4) 2) < ZERO_RELATIVE plane_engine \<and>
   validate_constraints plane_engine [sliver4] sliver4 0 2 = Inr (False, [])"
proof -
  have "sqrt (1 / 100000000000000) < 1 / 1000000"
    by (rule real_less_lsqrt) (simp_all add: power2_eq_square)
  then show ?thesis
    by (simp add: validate_constraints_def plane_engine_fields sliver4_def vertexAt_def isClosed_def
          segment_distance_def Let_def)
qed

section \<open>Properties of the farthest point\<close>

lemma collect_map_Inr: "(\<And>x. x \<in> set xs \<Longrightarrow> f x = Inr (g x)) \<Longrightarrow> collect (map f xs) = Inr (map g xs)"
  by (induction xs) auto

lemma list_index_mem: "v \<in> set xs \<Longrightarrow> \<exists>n. list_index xs v = Inr n"
  by (induction xs) auto

lemma py_max_nonempty: "xs \<noteq> [] \<Longrightarrow> \<exists>m. py_max xs = Inr m"
  by (cases xs) (auto simp: py_max_def)

lemma find_farthest_point_distances:
  assumes "0 \<le> first" and "lasti < int (length qgs_points)" and "first + 1 < lasti"
  shows "find_farthest_point env qgs_points first lasti =
           (let distances = map (chord_dist env qgs_points first lasti) [first + 1..lasti - 1]
            in case py_max distances of Inl e \<Rightarrow> Inl e | Inr farthest_dist \<Rightarrow>
               case list_index distances farthest_dist of Inl e \<Rightarrow> Inl e | Inr n \<Rightarrow>
                 Inr (int n + first + 1, farthest_dist))"
proof -
  have c: "collect (map (py_index qgs_points) [first + 1..lasti - 1]) =
             Inr (map (\<lambda>i. qgs_points ! nat i) [first + 1..lasti - 1])"
    using assms by (intro collect_map_Inr) (auto simp: py_index_in_range)
  have f: "py_index qgs_points first = Inr (qgs_points ! nat first)"
    and l: "py_index qgs_points lasti = Inr (qgs_points ! nat lasti)"
    using assms by (auto simp: py_index_in_range)
  have m: "distance env (qgs_points ! nat first) (qgs_points ! nat lasti) \<circ>
             (\<lambda>i. qgs_points ! nat i) = chord_dist env qgs_points first lasti"
    by (simp add: chord_dist_def fun_eq_iff)
  from assms(3) show ?thesis
    unfolding find_farthest_point_def by (simp add: c f l m Let_def del: upto.simps)
qed

lemma find_farthest_point_spec:
  assumes "0 \<le> first" and "lasti < int (length qgs_points)" and "first + 1 < lasti"
  shows "\<exists>fi fd. find_farthest_point env qgs_points first lasti = Inr (fi, fd) \<and>
           first < fi \<and> fi < lasti \<and> fd = chord_dist env qgs_points first lasti fi \<and>
           (\<forall>j. first < j \<and> j < lasti \<longrightarrow> chord_dist env qgs_points first lasti j \<le> fd) \<and>
           (\<forall>j. first < j \<and> j < fi \<longrightarrow> chord_dist env qgs_points first lasti j < fd)"
proof -
  let ?D = "chord_dist env qgs_points first lasti"
  let ?ds = "map ?D [first + 1..lasti - 1]"
  have len: "length ?ds = nat (lasti - first - 1)" by simp
  with assms(3) have ne: "?ds \<noteq> []" by (simp add: upto_Nil del: upto.simps)
  then obtain fd where fd: "py_max ?ds = Inr fd" using py_max_nonempty by blast
  from py_max_greatest[OF fd] have mem: "fd \<in> set ?ds" and ge: "\<forall>x\<in>set ?ds. x \<le> fd"
    by blast+
  from list_index_mem[OF mem] obtain n where n: "list_index ?ds fd = Inr n" by blast
  from list_index_first[OF n] have nlt: "n < length ?ds" and nth: "?ds ! n = fd"
    and first_n: "\<forall>m<n. ?ds ! m \<noteq> fd" by blast+
  have nth_D: "?ds ! m = ?D (first + 1 + int m)" if "m < nat (lasti - first - 1)" for m
    using that by (simp add: nth_upto del: upto.simps)
  have ffp: "find_farthest_point env qgs_points first lasti = Inr (int n + first + 1, fd)"
    using find_farthest_point_distances[OF assms, of env] fd n by (simp add: Let_def del: upto.simps)
  have b: "first < int n + first + 1 \<and> int n + first + 1 < lasti"
    using nlt len by linarith
  have e: "fd = ?D (int n + first + 1)"
    using nth nth_D[of n] nlt len by (simp add: add.commute add.left_commute)
  have all: "?D j \<le> fd" if "first < j \<and> j < lasti" for j
  proof -
    from that have "j \<in> set [first + 1..lasti - 1]" by simp
    then have "?D j \<in> set ?ds" by (simp del: upto.simps)
    with ge show ?thesis by blast
  qed
  have before: "?D j < fd" if "first < j \<and> j < int n + first + 1" for j
  proof -
    let ?m = "nat (j - first - 1)"
    from that have m: "?m < n" by linarith
    with nlt len have "?m < nat (lasti - first - 1)" by linarith
    from nth_D[OF this] that have "?ds ! ?m = ?D j" by simp
    with first_n m have "?D j \<noteq> fd" by metis
    moreover from that b have "?D j \<le> fd" by (intro all) linarith
    ultimately show ?thesis by simp
  qed
  from ffp b e all before show ?thesis by blast
qed

section \<open>The states of a call of process_line\<close>

lemma take_eq_take_le: "take n xs = take n ys \<Longrightarrow> m \<le> n \<Longrightarrow> take m xs = take m ys"
  by (metis min.absorb1 take_take)

lemma stack_inv_shrink:
  assumes "stack_inv snap cur r" and "\<forall>(f', l') \<in> set r. l' \<le> f"
    and "take (nat (f + 1)) cur' = take (nat (f + 1)) cur" and "f < int (length cur')"
  shows "stack_inv snap cur' r"
  using assms(1,2)
proof (induction r)
  case Nil
  then show ?case by simp
next
  case (Cons s r)
  obtain f' l' where s: "s = (f', l')" by (cases s)
  from Cons.prems s have le: "l' \<le> f" by simp
  then have "nat (l' + 1) \<le> nat (f + 1)" by simp
  from take_eq_take_le[OF assms(3) this] have "take (nat (l' + 1)) cur' = take (nat (l' + 1)) cur" .
  moreover from le assms(4) have "l' < int (length cur')" by simp
  moreover from Cons have "stack_inv snap cur' r" by (simp add: s)
  ultimately show ?case using Cons.prems by (simp add: s)
qed

lemma stack_inv_split:
  assumes "stack_inv snap cur ((f, l) # r)" and "f < fi" and "fi < l"
  shows "stack_inv snap cur ((fi, l) # (f, fi) # r)"
proof -
  from assms have "nat (fi + 1) \<le> nat (l + 1)" by simp
  moreover from assms(1) have "take (nat (l + 1)) cur = take (nat (l + 1)) snap" by simp
  ultimately have "take (nat (fi + 1)) cur = take (nat (fi + 1)) snap"
    by (rule take_eq_take_le[rotated])
  with assms show ?thesis by auto
qed

lemma validate_constraints_guard:
  assumes "isClosed (qgs_geom g) \<and> int (length (qgs_geom g)) - (lasti - first - 1) \<le> 3"
  shows "validate_constraints env rb_geoms g first lasti = Inr (False, [])"
  using assms by (simp add: validate_constraints_def)

lemma validate_constraints_True_guard:
  assumes "validate_constraints env rb_geoms g first lasti = Inr (True, evs)"
  shows "\<not> (isClosed (qgs_geom g) \<and> int (length (qgs_geom g)) - (lasti - first - 1) \<le> 3)"
proof
  assume "isClosed (qgs_geom g) \<and> int (length (qgs_geom g)) - (lasti - first - 1) \<le> 3"
  from validate_constraints_guard[OF this, of env rb_geoms] assms show False by simp
qed

lemma delete_vertex_fields:
  "qgs_geom (delete_vertex g a b) = take (nat a) (qgs_geom g) @ drop (nat (b + 1)) (qgs_geom g)"
  "id_rb (delete_vertex g a b) = id_rb g"
  "is_simplest (delete_vertex g a b) = is_simplest g"
  by (simp_all add: delete_vertex_def)

lemma isClosed_delete:
  assumes "0 \<le> f" and "l < int (length cur)" and "f + 1 < l"
  shows "isClosed (take (nat (f + 1)) cur @ drop (nat l) cur) = isClosed cur"
proof -
  from assms have ne: "cur \<noteq> []" and d: "drop (nat l) cur \<noteq> []" and t: "take (nat (f + 1)) cur \<noteq> []"
    by auto
  from t have "hd (take (nat (f + 1)) cur @ drop (nat l) cur) = hd cur" by simp
  moreover from d assms have "last (take (nat (f + 1)) cur @ drop (nat l) cur) = last cur"
    by (simp add: last_drop)
  ultimately show ?thesis using ne d by (simp add: isClosed_def)
qed

lemma pl_invI:
  assumes "length (geoms st) = length rb_geoms"
    and "\<forall>j < length rb_geoms. j \<noteq> k \<longrightarrow> geoms st ! j = rb_geoms ! j"
    and "id_rb (geoms st ! k) = id_rb (rb_geoms ! k)"
    and "stack_inv (qgs_geom (rb_geoms ! k)) (qgs_geom (geoms st ! k)) (stack st)"
    and "int (length (qgs_geom (geoms st ! k))) + nbr_vertice_deleted st =
           int (length (qgs_geom (rb_geoms ! k)))"
    and "0 \<le> nbr_vertice_deleted st"
    and "isClosed (qgs_geom (geoms st ! k)) = isClosed (qgs_geom (rb_geoms ! k))"
    and "isClosed (qgs_geom (rb_geoms ! k)) \<and> 4 \<le> length (qgs_geom (rb_geoms ! k)) \<longrightarrow>
           4 \<le> length (qgs_geom (geoms st ! k))"
  shows "pl_inv rb_geoms k st"
  unfolding pl_inv_def Let_def using assms by blast

lemma pl_invD:
  assumes "pl_inv rb_geoms k st"
  shows "length (geoms st) = length rb_geoms"
    and "\<forall>j < length rb_geoms. j \<noteq> k \<longrightarrow> geoms st ! j = rb_geoms ! j"
    and "id_rb (geoms st ! k) = id_rb (rb_geoms ! k)"
    and "stack_inv (qgs_geom (rb_geoms ! k)) (qgs_geom (geoms st ! k)) (stack st)"
    and "int (length (qgs_geom (geoms st ! k))) + nbr_vertice_deleted st =
           int (length (qgs_geom (rb_geoms ! k)))"
    and "0 \<le> nbr_vertice_deleted st"
    and "isClosed (qgs_geom (geoms st ! k)) = isClosed (qgs_geom (rb_geoms ! k))"
    and "isClosed (qgs_geom (rb_geoms ! k)) \<and> 4 \<le> length (qgs_geom (rb_geoms ! k)) \<longrightarrow>
           4 \<le> length (qgs_geom (geoms st ! k))"
  using assms unfolding pl_inv_def Let_def by blast+

lemma pl_inv_stack:
  assumes "pl_inv rb_geoms k st" and "geoms st' = geoms st"
    and "nbr_vertice_deleted st' = nbr_vertice_deleted st"
    and "stack_inv (qgs_geom (rb_geoms ! k)) (qgs_geom (geoms st ! k)) (stack st')"
  shows "pl_inv rb_geoms k st'"
  using pl_invD[OF assms(1)] assms(2,3,4) by (intro pl_invI) simp_all

lemma pl_inv_step:
  assumes k: "k < length rb_geoms" and inv: "pl_inv rb_geoms k st" and ne: "stack st \<noteq> []"
    and step: "process_step env tolerance qgs_points k st = Inr st'"
  shows "pl_inv rb_geoms k st'"
proof -
  let ?snap = "qgs_geom (rb_geoms ! k)"
  let ?cur = "qgs_geom (geoms st ! k)"
  note I = pl_invD[OF inv]
  from ne obtain first lasti rest where st: "stack st = (first, lasti) # rest"
    by (cases "stack st") auto
  from I(4) st have sinv: "stack_inv ?snap ?cur ((first, lasti) # rest)" by simp
  then have rest: "stack_inv ?snap ?cur rest" by simp
  from step st show ?thesis
  proof (cases rule: process_step_cases)
    case short
    from short(2) have "geoms st' = geoms st" "nbr_vertice_deleted st' = nbr_vertice_deleted st"
      "stack st' = rest" by simp_all
    with rest show ?thesis by (intro pl_inv_stack[OF inv]) simp_all
  next
    case (split fi fd)
    from find_farthest_point_between[OF split(2) split(1)]
    have "stack_inv ?snap ?cur ((fi, lasti) # (first, fi) # rest)"
      by (intro stack_inv_split[OF sinv]) simp_all
    moreover from split(4) have "geoms st' = geoms st"
      "nbr_vertice_deleted st' = nbr_vertice_deleted st"
      "stack st' = (fi, lasti) # (first, fi) # rest" by simp_all
    ultimately show ?thesis by (intro pl_inv_stack[OF inv]) simp_all
  next
    case (reject fi fd evs)
    from find_farthest_point_between[OF reject(2) reject(1)]
    have s: "stack_inv ?snap ?cur ((fi, lasti) # (first, fi) # rest)"
      by (intro stack_inv_split[OF sinv]) simp_all
    from reject(5) have g: "geoms st' = (geoms st)[k := (geoms st ! k)\<lparr>is_simplest := False\<rparr>]"
      and n: "nbr_vertice_deleted st' = nbr_vertice_deleted st"
      and t: "stack st' = (fi, lasti) # (first, fi) # rest" by simp_all
    from g k I(1) have gk: "geoms st' ! k = (geoms st ! k)\<lparr>is_simplest := False\<rparr>" by simp
    from g have go: "\<forall>j < length rb_geoms. j \<noteq> k \<longrightarrow> geoms st' ! j = geoms st ! j" by simp
    show ?thesis
    proof (rule pl_invI)
      show "length (geoms st') = length rb_geoms" using g I(1) by simp
      show "\<forall>j < length rb_geoms. j \<noteq> k \<longrightarrow> geoms st' ! j = rb_geoms ! j" using go I(2) by simp
      show "id_rb (geoms st' ! k) = id_rb (rb_geoms ! k)" using gk I(3) by simp
      show "stack_inv ?snap (qgs_geom (geoms st' ! k)) (stack st')" using gk s t by simp
      show "int (length (qgs_geom (geoms st' ! k))) + nbr_vertice_deleted st' = int (length ?snap)"
        using gk n I(5) by simp
      show "0 \<le> nbr_vertice_deleted st'" using n I(6) by simp
      show "isClosed (qgs_geom (geoms st' ! k)) = isClosed ?snap" using gk I(7) by simp
      show "isClosed ?snap \<and> 4 \<le> length ?snap \<longrightarrow> 4 \<le> length (qgs_geom (geoms st' ! k))"
        using gk I(8) by simp
    qed
  next
    case (collapse fi fd evs)
    let ?cur' = "take (nat (first + 1)) ?cur @ drop (nat lasti) ?cur"
    from sinv have f0: "0 \<le> first" and lc: "lasti < int (length ?cur)"
      and below: "\<forall>(f', l') \<in> set rest. l' \<le> first" by auto
    from collapse(5) have
      g: "geoms st' = (geoms st)[k := delete_vertex (geoms st ! k) (first + 1) (lasti - 1)]"
      and n: "nbr_vertice_deleted st' = nbr_vertice_deleted st + (lasti - first - 1)"
      and t: "stack st' = rest" by simp_all
    from g k I(1) have gk: "geoms st' ! k = delete_vertex (geoms st ! k) (first + 1) (lasti - 1)"
      by simp
    then have cur': "qgs_geom (geoms st' ! k) = ?cur'" by (simp add: delete_vertex_fields)
    from g have go: "\<forall>j < length rb_geoms. j \<noteq> k \<longrightarrow> geoms st' ! j = geoms st ! j" by simp
    have lencur': "int (length ?cur') = int (length ?cur) - (lasti - first - 1)"
      using f0 lc collapse(1) by simp
    have tk: "take (nat (first + 1)) ?cur' = take (nat (first + 1)) ?cur"
      using f0 lc collapse(1) by simp
    have fl: "first < int (length ?cur')" using lencur' lc collapse(1) by linarith
    have s': "stack_inv ?snap ?cur' rest"
      by (rule stack_inv_shrink[OF rest below tk fl])
    have closed: "isClosed ?cur' = isClosed ?cur"
      by (rule isClosed_delete[OF f0 lc collapse(1)])
    from validate_constraints_True_guard[OF collapse(4)]
    have guard: "isClosed ?cur \<longrightarrow> 4 \<le> int (length ?cur')"
      using lencur' by linarith
    show ?thesis
    proof (rule pl_invI)
      show "length (geoms st') = length rb_geoms" using g I(1) by simp
      show "\<forall>j < length rb_geoms. j \<noteq> k \<longrightarrow> geoms st' ! j = rb_geoms ! j" using go I(2) by simp
      show "id_rb (geoms st' ! k) = id_rb (rb_geoms ! k)"
        using gk I(3) by (simp add: delete_vertex_fields)
      show "stack_inv ?snap (qgs_geom (geoms st' ! k)) (stack st')"
        unfolding cur' t by (rule s')
      show "int (length (qgs_geom (geoms st' ! k))) + nbr_vertice_deleted st' = int (length ?snap)"
        unfolding cur' n using lencur' I(5) by linarith
      show "0 \<le> nbr_vertice_deleted st'" unfolding n using I(6) collapse(1) by linarith
      show "isClosed (qgs_geom (geoms st' ! k)) = isClosed ?snap"
        unfolding cur' using closed I(7) by simp
      show "isClosed ?snap \<and> 4 \<le> length ?snap \<longrightarrow> 4 \<le> length (qgs_geom (geoms st' ! k))"
        unfolding cur' using guard closed I(7) by linarith
    qed
  qed
qed

lemma stack_inv_init: "stack_inv pts pts (init_stack pts)"
  by (auto simp: init_stack_def Let_def isClosed_def)

lemma pl_inv_start:
  assumes "k < length rb_geoms"
  shows "pl_inv rb_geoms k (pl_start rb_geoms k)"
  using assms by (intro pl_invI) (simp_all add: pl_start_def stack_inv_init)

lemma within_pl_inv:
  assumes "k < length rb_geoms" and "within_process_line env tolerance rb_geoms k st"
  shows "pl_inv rb_geoms k st"
  using assms(2)
proof (induction rule: within_process_line.induct)
  case start
  show ?case by (rule pl_inv_start[OF assms(1)])
next
  case (turn st st')
  from pl_inv_step[OF assms(1) turn.IH turn.hyps(2,3)] show ?case .
qed

lemma validate_constraints_total:
  assumes "first \<le> lasti"
  shows "\<exists>valid evs. validate_constraints env rb_geoms g first lasti = Inr (valid, evs)"
  using upto_nonempty[OF assms, of "vertexAt env (qgs_geom g)"]
  by (auto simp: validate_constraints_def Let_def case_prod_beta)

lemma validate_constraints_events:
  assumes "validate_constraints env rb_geoms g first lasti = Inr (valid, evs)"
  shows "Validated a b c \<notin> set evs"
  using assms
  by (auto simp: validate_constraints_def Let_def case_prod_beta split: if_splits)

lemma process_step_total:
  assumes k: "k < length rb_geoms" and inv: "pl_inv rb_geoms k st"
  shows "\<exists>st'. process_step env tolerance (qgs_geom (rb_geoms ! k)) k st = Inr st'"
proof (cases "stack st")
  case Nil
  then show ?thesis by (simp add: process_step_def)
next
  case (Cons s rest)
  obtain first lasti where s: "s = (first, lasti)" by (cases s)
  show ?thesis
  proof (cases "first + 1 < lasti")
    case False
    with Cons s show ?thesis by (simp add: process_step_def)
  next
    case True
    from pl_invD(4)[OF inv] Cons s have "0 \<le> first" "lasti < int (length (qgs_geom (rb_geoms ! k)))"
      by simp_all
    from find_farthest_point_spec[OF this True, of env] obtain fi fd where
      ffp: "find_farthest_point env (qgs_geom (rb_geoms ! k)) first lasti = Inr (fi, fd)" by blast
    from True have "first \<le> lasti" by simp
    from validate_constraints_total[OF this, of env "geoms st" "geoms st ! k"] obtain valid evs where
      vc: "validate_constraints env (geoms st) (geoms st ! k) first lasti = Inr (valid, evs)" by blast
    from Cons s True ffp vc show ?thesis by (simp add: process_step_def)
  qed
qed

lemma process_loop_result_aux:
  assumes "k < length rb_geoms" and "pts = qgs_geom (rb_geoms ! k)"
    and "within_process_line env tolerance rb_geoms k st"
  shows "\<exists>st'. process_loop env tolerance pts k st = Inr st' \<and>
           within_process_line env tolerance rb_geoms k st' \<and> stack st' = []"
  using assms
proof (induction env tolerance pts k st rule: process_loop.induct)
  case (1 env tolerance pts k st)
  show ?case
  proof (cases "stack st = []")
    case True
    with "1.prems"(3) show ?thesis by (simp add: process_loop.simps)
  next
    case False
    from process_step_total[OF "1.prems"(1) within_pl_inv[OF "1.prems"(1,3)], of env tolerance]
      "1.prems"(2)
    obtain st1 where st1: "process_step env tolerance pts k st = Inr st1"
      by auto
    from within_process_line.turn[OF "1.prems"(3) False] st1 "1.prems"(2)
    have w1: "within_process_line env tolerance rb_geoms k st1" by simp
    from "1.IH"[OF False st1 "1.prems"(1,2) w1] False st1 show ?thesis
      by (simp add: process_loop.simps[of env tolerance pts k st])
  qed
qed

lemma process_loop_result:
  assumes k: "k < length rb_geoms"
    and w: "within_process_line env tolerance rb_geoms k st"
  shows "\<exists>st'. process_loop env tolerance (qgs_geom (rb_geoms ! k)) k st = Inr st' \<and>
           within_process_line env tolerance rb_geoms k st' \<and> stack st' = []"
  by (rule process_loop_result_aux[OF k refl w])

lemma process_line_start:
  "process_line env tolerance rb_geoms k =
     process_loop env tolerance (qgs_geom (rb_geoms ! k)) k (pl_start rb_geoms k)"
  by (simp add: process_line_def pl_start_def Let_def)

lemma process_line_result:
  assumes k: "k < length rb_geoms"
  shows "\<exists>st'. process_line env tolerance rb_geoms k = Inr st' \<and>
           within_process_line env tolerance rb_geoms k st' \<and> stack st' = []"
  unfolding process_line_start
  by (rule process_loop_result[OF k within_process_line.start])

section \<open>The order of the spans on the stack\<close>

lemma stack_inv_ordered: "stack_inv snap cur ss \<Longrightarrow> ordered_stack ss"
  by (induction ss) auto

lemma stack_inv_all:
  "stack_inv snap cur ss \<Longrightarrow>
   \<forall>(f, l) \<in> set ss. 0 \<le> f \<and> l < int (length cur) \<and> l < int (length snap) \<and>
      take (nat (l + 1)) cur = take (nat (l + 1)) snap"
  by (induction ss) auto

lemma process_step_span:
  assumes k: "k < length rb_geoms"
    and w: "within_process_line env tolerance rb_geoms k st"
    and st: "stack st = (first, lasti) # rest" and lt: "first + 1 < lasti"
  shows "\<exists>fi fd valid evs.
     find_farthest_point env (qgs_geom (rb_geoms ! k)) first lasti = Inr (fi, fd) \<and>
     first < fi \<and> fi < lasti \<and>
     fd = chord_dist env (qgs_geom (rb_geoms ! k)) first lasti fi \<and>
     (\<forall>j. first < j \<and> j < lasti \<longrightarrow> chord_dist env (qgs_geom (rb_geoms ! k)) first lasti j \<le> fd) \<and>
     (\<forall>j. first < j \<and> j < fi \<longrightarrow> chord_dist env (qgs_geom (rb_geoms ! k)) first lasti j < fd) \<and>
     validate_constraints env (geoms st) (geoms st ! k) first lasti = Inr (valid, evs) \<and>
     process_step env tolerance (qgs_geom (rb_geoms ! k)) k st =
       Inr (if tolerance < fd then st\<lparr>stack := (fi, lasti) # (first, fi) # rest\<rparr>
            else if valid then
              st\<lparr>stack := rest,
                 geoms := (geoms st)[k := delete_vertex (geoms st ! k) (first + 1) (lasti - 1)],
                 nbr_vertice_deleted := nbr_vertice_deleted st + (lasti - first - 1),
                 trace := trace st @ evs @ [Validated first lasti True]\<rparr>
            else
              st\<lparr>stack := (fi, lasti) # (first, fi) # rest,
                 geoms := (geoms st)[k := (geoms st ! k)\<lparr>is_simplest := False\<rparr>],
                 trace := trace st @ evs @ [Validated first lasti False]\<rparr>) \<and>
     0 \<le> first \<and> lasti < int (length (qgs_geom (geoms st ! k))) \<and>
     qgs_geom (delete_vertex (geoms st ! k) (first + 1) (lasti - 1)) =
       take (nat (first + 1)) (qgs_geom (geoms st ! k)) @ drop (nat lasti) (qgs_geom (geoms st ! k)) \<and>
     int (length (qgs_geom (delete_vertex (geoms st ! k) (first + 1) (lasti - 1)))) =
       int (length (qgs_geom (geoms st ! k))) - (lasti - first - 1)"
proof -
  let ?snap = "qgs_geom (rb_geoms ! k)"
  let ?cur = "qgs_geom (geoms st ! k)"
  from pl_invD(4)[OF within_pl_inv[OF k w]] st
  have f0: "0 \<le> first" and ls: "lasti < int (length ?snap)" and lc: "lasti < int (length ?cur)"
    by simp_all
  from find_farthest_point_spec[OF f0 ls lt, of env] obtain fi fd where
    ffp: "find_farthest_point env ?snap first lasti = Inr (fi, fd)"
    and b: "first < fi" "fi < lasti" and e: "fd = chord_dist env ?snap first lasti fi"
    and all: "\<forall>j. first < j \<and> j < lasti \<longrightarrow> chord_dist env ?snap first lasti j \<le> fd"
    and before: "\<forall>j. first < j \<and> j < fi \<longrightarrow> chord_dist env ?snap first lasti j < fd"
    by blast
  from lt have "first \<le> lasti" by simp
  from validate_constraints_total[OF this, of env "geoms st" "geoms st ! k"] obtain valid evs where
    vc: "validate_constraints env (geoms st) (geoms st ! k) first lasti = Inr (valid, evs)" by blast
  have step: "process_step env tolerance ?snap k st =
       Inr (if tolerance < fd then st\<lparr>stack := (fi, lasti) # (first, fi) # rest\<rparr>
            else if valid then
              st\<lparr>stack := rest,
                 geoms := (geoms st)[k := delete_vertex (geoms st ! k) (first + 1) (lasti - 1)],
                 nbr_vertice_deleted := nbr_vertice_deleted st + (lasti - first - 1),
                 trace := trace st @ evs @ [Validated first lasti True]\<rparr>
            else
              st\<lparr>stack := (fi, lasti) # (first, fi) # rest,
                 geoms := (geoms st)[k := (geoms st ! k)\<lparr>is_simplest := False\<rparr>],
                 trace := trace st @ evs @ [Validated first lasti False]\<rparr>)"
    using st lt ffp vc by (simp add: process_step_def not_less)
  have dv: "qgs_geom (delete_vertex (geoms st ! k) (first + 1) (lasti - 1)) =
       take (nat (first + 1)) ?cur @ drop (nat lasti) ?cur"
    by (simp add: delete_vertex_fields)
  have dl: "int (length (qgs_geom (delete_vertex (geoms st ! k) (first + 1) (lasti - 1)))) =
       int (length ?cur) - (lasti - first - 1)"
    unfolding dv using f0 lc lt by simp
  from ffp b e all before vc step f0 lc dv dl show ?thesis by blast
qed

lemma process_step_deletion:
  assumes k: "k < length rb_geoms"
    and w: "within_process_line env tolerance rb_geoms k st"
    and ne: "stack st \<noteq> []"
    and step: "process_step env tolerance (qgs_geom (rb_geoms ! k)) k st = Inr st'"
    and ch: "qgs_geom (geoms st' ! k) \<noteq> qgs_geom (geoms st ! k)"
  shows "\<exists>first lasti. stack st = (first, lasti) # stack st' \<and> first + 1 < lasti \<and>
          nbr_vertice_deleted st' = nbr_vertice_deleted st + (lasti - first - 1) \<and>
          qgs_geom (geoms st' ! k) =
            take (nat (first + 1)) (qgs_geom (geoms st ! k)) @ drop (nat lasti) (qgs_geom (geoms st ! k)) \<and>
          int (length (qgs_geom (geoms st' ! k))) =
            int (length (qgs_geom (geoms st ! k))) - (lasti - first - 1) \<and>
          (\<forall>(f', l') \<in> set (stack st'). l' \<le> first \<and> l' < int (length (qgs_geom (geoms st' ! k))) \<and>
             take (nat (l' + 1)) (qgs_geom (geoms st' ! k)) =
             take (nat (l' + 1)) (qgs_geom (geoms st ! k)))"
proof -
  let ?snap = "qgs_geom (rb_geoms ! k)"
  let ?cur = "qgs_geom (geoms st ! k)"
  note inv = within_pl_inv[OF k w]
  note I = pl_invD[OF inv]
  from ne obtain first lasti rest where st: "stack st = (first, lasti) # rest"
    by (cases "stack st") auto
  from I(4) st have sinv: "stack_inv ?snap ?cur ((first, lasti) # rest)" by simp
  from step st show ?thesis
  proof (cases rule: process_step_cases)
    case short
    with ch show ?thesis by simp
  next
    case (split fi fd)
    with ch show ?thesis by simp
  next
    case (reject fi fd evs)
    with ch k I(1) show ?thesis by simp
  next
    case (collapse fi fd evs)
    let ?cur' = "take (nat (first + 1)) ?cur @ drop (nat lasti) ?cur"
    from sinv have f0: "0 \<le> first" and lc: "lasti < int (length ?cur)"
      and below: "\<forall>(f', l') \<in> set rest. l' \<le> first" by auto
    from collapse(5) k I(1) have cur': "qgs_geom (geoms st' ! k) = ?cur'"
      by (simp add: delete_vertex_fields)
    from collapse(5) have t: "stack st' = rest"
      and n: "nbr_vertice_deleted st' = nbr_vertice_deleted st + (lasti - first - 1)" by simp_all
    have lencur': "int (length ?cur') = int (length ?cur) - (lasti - first - 1)"
      using f0 lc collapse(1) by simp
    have tk: "take (nat (first + 1)) ?cur' = take (nat (first + 1)) ?cur"
      using f0 lc collapse(1) by simp
    have r: "\<forall>(f', l') \<in> set rest. l' \<le> first \<and> l' < int (length ?cur') \<and>
             take (nat (l' + 1)) ?cur' = take (nat (l' + 1)) ?cur"
    proof (clarify, intro conjI)
      fix f' l' assume m: "(f', l') \<in> set rest"
      with below show le: "l' \<le> first" by auto
      with lencur' lc collapse(1) show "l' < int (length ?cur')" by linarith
      from le have "nat (l' + 1) \<le> nat (first + 1)" by simp
      from take_eq_take_le[OF tk this] show "take (nat (l' + 1)) ?cur' = take (nat (l' + 1)) ?cur" .
    qed
    show ?thesis
      unfolding cur' t using st collapse(1) n lencur' r by blast
  qed
qed

section \<open>What happens to a popped span\<close>

text \<open>
  C2. Take a state of the loop of \<^verbatim>\<open>process_line\<close> whose top span \<open>(first, last)\<close> covers
  more than two points. The farthest point search returns the index \<open>fi\<close> strictly
  inside the span whose distance \<open>fd\<close> to the chord is greatest, the lowest such index.
  If \<open>fd\<close> is above the tolerance the turn replaces the span by \<open>(first, fi)\<close> and
  \<open>(fi, last)\<close>, the second on top. Otherwise the span goes to the validator, and on
  success the turn pops the span, removes the vertices \<open>first + 1\<close> to \<open>last - 1\<close> of the
  line, whose length drops by \<open>last - first - 1\<close>, and adds \<open>last - first - 1\<close> to the count.
\<close>

theorem process_step_farthest:
  assumes "k < length rb_geoms"
    and "within_process_line env tolerance rb_geoms k st"
    and "stack st = (first, lasti) # rest" and "first + 1 < lasti"
  shows "\<exists>fi fd valid evs.
     find_farthest_point env (qgs_geom (rb_geoms ! k)) first lasti = Inr (fi, fd) \<and>
     first < fi \<and> fi < lasti \<and>
     fd = chord_dist env (qgs_geom (rb_geoms ! k)) first lasti fi \<and>
     (\<forall>j. first < j \<and> j < lasti \<longrightarrow> chord_dist env (qgs_geom (rb_geoms ! k)) first lasti j \<le> fd) \<and>
     (\<forall>j. first < j \<and> j < fi \<longrightarrow> chord_dist env (qgs_geom (rb_geoms ! k)) first lasti j < fd) \<and>
     validate_constraints env (geoms st) (geoms st ! k) first lasti = Inr (valid, evs) \<and>
     process_step env tolerance (qgs_geom (rb_geoms ! k)) k st =
       Inr (if tolerance < fd then st\<lparr>stack := (fi, lasti) # (first, fi) # rest\<rparr>
            else if valid then
              st\<lparr>stack := rest,
                 geoms := (geoms st)[k := delete_vertex (geoms st ! k) (first + 1) (lasti - 1)],
                 nbr_vertice_deleted := nbr_vertice_deleted st + (lasti - first - 1),
                 trace := trace st @ evs @ [Validated first lasti True]\<rparr>
            else
              st\<lparr>stack := (fi, lasti) # (first, fi) # rest,
                 geoms := (geoms st)[k := (geoms st ! k)\<lparr>is_simplest := False\<rparr>],
                 trace := trace st @ evs @ [Validated first lasti False]\<rparr>) \<and>
     0 \<le> first \<and> lasti < int (length (qgs_geom (geoms st ! k))) \<and>
     qgs_geom (delete_vertex (geoms st ! k) (first + 1) (lasti - 1)) =
       take (nat (first + 1)) (qgs_geom (geoms st ! k)) @ drop (nat lasti) (qgs_geom (geoms st ! k)) \<and>
     int (length (qgs_geom (delete_vertex (geoms st ! k) (first + 1) (lasti - 1)))) =
       int (length (qgs_geom (geoms st ! k))) - (lasti - first - 1)"
  by (rule process_step_span[OF assms])

lemma bend3_eval:
  "find_farthest_point plane_engine (qgs_geom ([bend3] ! 0)) 0 2 = Inr (1, 1)"
  "pl_start [bend3] 0 =
     \<lparr>stack = [(0, 2)], geoms = [bend3\<lparr>is_simplest := True\<rparr>], nbr_vertice_deleted = 0, trace = []\<rparr>"
  "validate_constraints plane_engine (geoms (pl_start [bend3] 0)) (geoms (pl_start [bend3] 0) ! 0) 0 2 =
     Inr (True, [Check_simplicity True])"
proof -
  show "find_farthest_point plane_engine (qgs_geom ([bend3] ! 0)) 0 2 = Inr (1, 1)"
    by (simp add: find_farthest_point_def py_index_def upto.simps py_max_def plane_engine_fields
          seg_dist_vals bend3_def)
  show s: "pl_start [bend3] 0 =
     \<lparr>stack = [(0, 2)], geoms = [bend3\<lparr>is_simplest := True\<rparr>], nbr_vertice_deleted = 0, trace = []\<rparr>"
    by (simp add: pl_start_def init_stack_def isClosed_def bend3_def)
  show "validate_constraints plane_engine (geoms (pl_start [bend3] 0)) (geoms (pl_start [bend3] 0) ! 0) 0 2 =
     Inr (True, [Check_simplicity True])"
    unfolding s
    by (simp add: validate_constraints_def plane_engine_fields bend3_def vertexAt_vals isClosed_def
          seg_dist_vals Let_def)
qed

theorem process_step_farthest_witness:
  "find_farthest_point plane_engine (qgs_geom ([bend3] ! 0)) 0 2 = Inr (1, 1) \<and>
   process_step plane_engine 1 (qgs_geom ([bend3] ! 0)) 0 (pl_start [bend3] 0) =
     Inr \<lparr>stack = [],
          geoms = [\<lparr>id_rb = 0, qgs_geom = [(0, 0), (2, 0)], is_simplest = True\<rparr>],
          nbr_vertice_deleted = 1,
          trace = [Check_simplicity True, Validated 0 2 True]\<rparr> \<and>
   process_step plane_engine (1 / 2) (qgs_geom ([bend3] ! 0)) 0 (pl_start [bend3] 0) =
     Inr \<lparr>stack = [(1, 2), (0, 1)],
          geoms = [\<lparr>id_rb = 0, qgs_geom = [(0, 0), (1, 1), (2, 0)], is_simplest = True\<rparr>],
          nbr_vertice_deleted = 0, trace = []\<rparr>"
proof -
  let ?st = "pl_start [bend3] 0"
  let ?pts = "qgs_geom ([bend3] ! 0)"
  have k: "0 < length [bend3]" by simp
  have st: "stack ?st = (0, 2) # []" by (simp add: bend3_eval(2))
  have lt: "(0 :: int) + 1 < 2" by simp
  have X: "?st\<lparr>stack := [],
                geoms := (geoms ?st)[0 := delete_vertex (geoms ?st ! 0) (0 + 1) (2 - 1)],
                nbr_vertice_deleted := nbr_vertice_deleted ?st + (2 - 0 - 1),
                trace := trace ?st @ [Check_simplicity True] @ [Validated 0 2 True]\<rparr> =
     \<lparr>stack = [],
      geoms = [\<lparr>id_rb = 0, qgs_geom = [(0, 0), (2, 0)], is_simplest = True\<rparr>],
      nbr_vertice_deleted = 1,
      trace = [Check_simplicity True, Validated 0 2 True]\<rparr>"
    unfolding bend3_eval(2) by (simp add: bend3_def delete_vertex_def)
  have Y: "?st\<lparr>stack := (1, 2) # (0, 1) # []\<rparr> =
     \<lparr>stack = [(1, 2), (0, 1)],
      geoms = [\<lparr>id_rb = 0, qgs_geom = [(0, 0), (1, 1), (2, 0)], is_simplest = True\<rparr>],
      nbr_vertice_deleted = 0, trace = []\<rparr>"
    unfolding bend3_eval(2) by (simp add: bend3_def)
  from process_step_farthest[OF k within_process_line.start st lt, of plane_engine 1]
  obtain fi fd valid evs where
    a: "find_farthest_point plane_engine ?pts 0 2 = Inr (fi, fd)" and
    v: "validate_constraints plane_engine (geoms ?st) (geoms ?st ! 0) 0 2 = Inr (valid, evs)" and
    p: "process_step plane_engine 1 ?pts 0 ?st =
       Inr (if 1 < fd then ?st\<lparr>stack := (fi, 2) # (0, fi) # []\<rparr>
            else if valid then
              ?st\<lparr>stack := [],
                 geoms := (geoms ?st)[0 := delete_vertex (geoms ?st ! 0) (0 + 1) (2 - 1)],
                 nbr_vertice_deleted := nbr_vertice_deleted ?st + (2 - 0 - 1),
                 trace := trace ?st @ evs @ [Validated 0 2 True]\<rparr>
            else
              ?st\<lparr>stack := (fi, 2) # (0, fi) # [],
                 geoms := (geoms ?st)[0 := (geoms ?st ! 0)\<lparr>is_simplest := False\<rparr>],
                 trace := trace ?st @ evs @ [Validated 0 2 False]\<rparr>)"
    by blast
  from a bend3_eval(1) have "fi = 1" "fd = 1" by simp_all
  moreover from v bend3_eval(3) have "valid = True" "evs = [Check_simplicity True]" by simp_all
  ultimately have one: "process_step plane_engine 1 ?pts 0 ?st =
     Inr \<lparr>stack = [],
          geoms = [\<lparr>id_rb = 0, qgs_geom = [(0, 0), (2, 0)], is_simplest = True\<rparr>],
          nbr_vertice_deleted = 1,
          trace = [Check_simplicity True, Validated 0 2 True]\<rparr>"
    using p by (simp only: X less_irrefl if_False if_True)
  from process_step_farthest[OF k within_process_line.start st lt, of plane_engine "1 / 2"]
  obtain fi fd valid evs where
    a: "find_farthest_point plane_engine ?pts 0 2 = Inr (fi, fd)" and
    p: "process_step plane_engine (1 / 2) ?pts 0 ?st =
       Inr (if 1 / 2 < fd then ?st\<lparr>stack := (fi, 2) # (0, fi) # []\<rparr>
            else if valid then
              ?st\<lparr>stack := [],
                 geoms := (geoms ?st)[0 := delete_vertex (geoms ?st ! 0) (0 + 1) (2 - 1)],
                 nbr_vertice_deleted := nbr_vertice_deleted ?st + (2 - 0 - 1),
                 trace := trace ?st @ evs @ [Validated 0 2 True]\<rparr>
            else
              ?st\<lparr>stack := (fi, 2) # (0, fi) # [],
                 geoms := (geoms ?st)[0 := (geoms ?st ! 0)\<lparr>is_simplest := False\<rparr>],
                 trace := trace ?st @ evs @ [Validated 0 2 False]\<rparr>)"
    by blast
  from a bend3_eval(1) have "fi = 1" "fd = 1" by simp_all
  moreover have "(1 / 2 :: real) < 1" by simp
  ultimately have half: "process_step plane_engine (1 / 2) ?pts 0 ?st =
     Inr \<lparr>stack = [(1, 2), (0, 1)],
          geoms = [\<lparr>id_rb = 0, qgs_geom = [(0, 0), (1, 1), (2, 0)], is_simplest = True\<rparr>],
          nbr_vertice_deleted = 0, trace = []\<rparr>"
    using p by (simp only: Y if_True)
  from bend3_eval(1) one half show ?thesis by (intro conjI)
qed

section \<open>Evaluation on a ring of five points\<close>

lemma process_step_shortI:
  assumes "stack st = (first, lasti) # rest" and "\<not> first + 1 < lasti"
  shows "process_step env tolerance qgs_points k st = Inr (st\<lparr>stack := rest\<rparr>)"
  using assms by (simp add: process_step_def)

lemma process_step_splitI:
  assumes "stack st = (first, lasti) # rest" and "first + 1 < lasti"
    and "find_farthest_point env qgs_points first lasti = Inr (fi, fd)" and "\<not> fd \<le> tolerance"
  shows "process_step env tolerance qgs_points k st =
           Inr (st\<lparr>stack := (fi, lasti) # (first, fi) # rest\<rparr>)"
  using assms by (simp add: process_step_def)

lemma process_step_collapseI:
  assumes "stack st = (first, lasti) # rest" and "first + 1 < lasti"
    and "find_farthest_point env qgs_points first lasti = Inr (fi, fd)" and "fd \<le> tolerance"
    and "validate_constraints env (geoms st) (geoms st ! k) first lasti = Inr (True, evs)"
  shows "process_step env tolerance qgs_points k st =
           Inr (st\<lparr>stack := rest,
                   geoms := (geoms st)[k := delete_vertex (geoms st ! k) (first + 1) (lasti - 1)],
                   nbr_vertice_deleted := nbr_vertice_deleted st + (lasti - first - 1),
                   trace := trace st @ evs @ [Validated first lasti True]\<rparr>)"
  using assms by (simp add: process_step_def)

lemma process_step_rejectI:
  assumes "stack st = (first, lasti) # rest" and "first + 1 < lasti"
    and "find_farthest_point env qgs_points first lasti = Inr (fi, fd)" and "fd \<le> tolerance"
    and "validate_constraints env (geoms st) (geoms st ! k) first lasti = Inr (False, evs)"
  shows "process_step env tolerance qgs_points k st =
           Inr (st\<lparr>stack := (fi, lasti) # (first, fi) # rest,
                   geoms := (geoms st)[k := (geoms st ! k)\<lparr>is_simplest := False\<rparr>],
                   trace := trace st @ evs @ [Validated first lasti False]\<rparr>)"
  using assms by (simp add: process_step_def)

lemma seg_dist_diamond:
  "segment_distance (2, 0) (0, 0) (1, 1) = 1"
  "segment_distance (0, 0) (2, 0) (1, - 1) = 1"
  "segment_distance (2, 0) (2, 0) (0, 0) = 2"
  by (simp_all add: segment_distance_def Let_def)

lemma diamond5_start:
  "pl_start [diamond5] 0 =
     \<lparr>stack = [(2, 4), (0, 2)], geoms = [diamond5\<lparr>is_simplest := True\<rparr>],
      nbr_vertice_deleted = 0, trace = []\<rparr>"
  by (simp add: pl_start_def init_stack_def isClosed_def diamond5_def)

lemma diamond5_ffp:
  "find_farthest_point plane_engine (qgs_geom diamond5) 2 4 = Inr (3, 1)"
  "find_farthest_point plane_engine (qgs_geom diamond5) 0 2 = Inr (1, 1)"
  by (simp_all add: find_farthest_point_def py_index_def upto.simps py_max_def plane_engine_fields
        seg_dist_diamond diamond5_def)

lemma diamond5_validate:
  "validate_constraints plane_engine [diamond5\<lparr>is_simplest := True\<rparr>]
     (diamond5\<lparr>is_simplest := True\<rparr>) 2 4 = Inr (True, [Check_simplicity True])"
  by (simp add: validate_constraints_def plane_engine_fields diamond5_def vertexAt_def upto.simps
        isClosed_def seg_dist_diamond Let_def)

lemma diamond5_step1:
  "process_step plane_engine 1 (qgs_geom diamond5) 0 (pl_start [diamond5] 0) =
     Inr \<lparr>stack = [(0, 2)], geoms = [diamond4], nbr_vertice_deleted = 1,
          trace = [Check_simplicity True, Validated 2 4 True]\<rparr>"
proof -
  let ?s = "\<lparr>stack = [(2, 4), (0, 2)], geoms = [diamond5\<lparr>is_simplest := True\<rparr>],
      nbr_vertice_deleted = 0, trace = []\<rparr> :: (real \<times> real) pl_state"
  have "process_step plane_engine 1 (qgs_geom diamond5) 0 ?s =
         Inr (?s\<lparr>stack := [(0, 2)],
                 geoms := (geoms ?s)[0 := delete_vertex (geoms ?s ! 0) (2 + 1) (4 - 1)],
                 nbr_vertice_deleted := nbr_vertice_deleted ?s + (4 - 2 - 1),
                 trace := trace ?s @ [Check_simplicity True] @ [Validated 2 4 True]\<rparr>)"
    by (rule process_step_collapseI[where fi = 3 and fd = 1])
       (simp_all add: diamond5_ffp diamond5_validate)
  then show ?thesis
    unfolding diamond5_start by (simp add: diamond5_def diamond4_def delete_vertex_def)
qed

section \<open>Deletions stay to the right of the stack\<close>

text \<open>
  C10. In every state of the loop of a call of \<^verbatim>\<open>process_line\<close>: the stack is ordered,
  every span below a span ends at or before the first index of that span, so the
  span on top is the rightmost one; the indices of every span on the stack are
  inside the current line, and the current line and the points read before the loop
  agree up to the last index of the span. A turn that changes the line pops the
  span \<open>(first, last)\<close> and removes the vertices \<open>first + 1\<close> to \<open>last - 1\<close>; every span
  still on the stack ends at or before \<open>first\<close>, lies inside the new line, and the new
  line agrees with the old one up to its last index.
\<close>

theorem process_line_stack_order:
  assumes "k < length rb_geoms"
    and "within_process_line env tolerance rb_geoms k st"
  shows "ordered_stack (stack st) \<and>
    (\<forall>(f, l) \<in> set (stack st).
        0 \<le> f \<and> l < int (length (qgs_geom (geoms st ! k))) \<and>
        take (nat (l + 1)) (qgs_geom (geoms st ! k)) = take (nat (l + 1)) (qgs_geom (rb_geoms ! k))) \<and>
    (\<forall>st'. stack st \<noteq> [] \<and>
        process_step env tolerance (qgs_geom (rb_geoms ! k)) k st = Inr st' \<and>
        qgs_geom (geoms st' ! k) \<noteq> qgs_geom (geoms st ! k) \<longrightarrow>
        (\<exists>first lasti. stack st = (first, lasti) # stack st' \<and> first + 1 < lasti \<and>
           qgs_geom (geoms st' ! k) =
             take (nat (first + 1)) (qgs_geom (geoms st ! k)) @
             drop (nat lasti) (qgs_geom (geoms st ! k)) \<and>
           (\<forall>(f', l') \<in> set (stack st').
              l' \<le> first \<and> l' < int (length (qgs_geom (geoms st' ! k))) \<and>
              take (nat (l' + 1)) (qgs_geom (geoms st' ! k)) =
              take (nat (l' + 1)) (qgs_geom (geoms st ! k)))))"
proof (intro conjI allI impI)
  note inv = pl_invD(4)[OF within_pl_inv[OF assms]]
  show "ordered_stack (stack st)" by (rule stack_inv_ordered[OF inv])
  from stack_inv_all[OF inv]
  show "\<forall>(f, l) \<in> set (stack st).
        0 \<le> f \<and> l < int (length (qgs_geom (geoms st ! k))) \<and>
        take (nat (l + 1)) (qgs_geom (geoms st ! k)) = take (nat (l + 1)) (qgs_geom (rb_geoms ! k))"
    by fast
next
  fix st'
  assume h: "stack st \<noteq> [] \<and>
        process_step env tolerance (qgs_geom (rb_geoms ! k)) k st = Inr st' \<and>
        qgs_geom (geoms st' ! k) \<noteq> qgs_geom (geoms st ! k)"
  from process_step_deletion[OF assms, of st'] h
  show "\<exists>first lasti. stack st = (first, lasti) # stack st' \<and> first + 1 < lasti \<and>
           qgs_geom (geoms st' ! k) =
             take (nat (first + 1)) (qgs_geom (geoms st ! k)) @
             drop (nat lasti) (qgs_geom (geoms st ! k)) \<and>
           (\<forall>(f', l') \<in> set (stack st').
              l' \<le> first \<and> l' < int (length (qgs_geom (geoms st' ! k))) \<and>
              take (nat (l' + 1)) (qgs_geom (geoms st' ! k)) =
              take (nat (l' + 1)) (qgs_geom (geoms st ! k)))"
    by blast
qed

theorem process_line_stack_order_witness:
  "stack (pl_start [diamond5] 0) = [(2, 4), (0, 2)] \<and>
   ordered_stack (stack (pl_start [diamond5] 0)) \<and>
   (\<exists>first lasti. stack (pl_start [diamond5] 0) = (first, lasti) # [(0, 2)] \<and> first + 1 < lasti \<and>
      qgs_geom diamond4 =
        take (nat (first + 1)) (qgs_geom diamond5) @ drop (nat lasti) (qgs_geom diamond5) \<and>
      2 \<le> first \<and> 2 < int (length (qgs_geom diamond4)) \<and>
      take 3 (qgs_geom diamond4) = take 3 (qgs_geom diamond5))"
proof -
  let ?st = "pl_start [diamond5] 0"
  let ?st' = "\<lparr>stack = [(0, 2)], geoms = [diamond4], nbr_vertice_deleted = 1,
          trace = [Check_simplicity True, Validated 2 4 True]\<rparr> :: (real \<times> real) pl_state"
  have k: "0 < length [diamond5]" by simp
  have q: "[diamond5] ! 0 = diamond5" by simp
  note T = process_line_stack_order[OF k within_process_line.start, of plane_engine 1, unfolded q]
  have ne: "stack ?st \<noteq> []" by (simp add: diamond5_start)
  have g: "qgs_geom (geoms ?st ! 0) = qgs_geom diamond5" "qgs_geom (geoms ?st' ! 0) = qgs_geom diamond4"
    "stack ?st' = [(0, 2)]"
    by (simp_all add: diamond5_start)
  have ch: "qgs_geom (geoms ?st' ! 0) \<noteq> qgs_geom (geoms ?st ! 0)"
    unfolding g by (simp add: diamond4_def diamond5_def)
  from T have "\<exists>first lasti. stack ?st = (first, lasti) # stack ?st' \<and> first + 1 < lasti \<and>
           qgs_geom (geoms ?st' ! 0) =
             take (nat (first + 1)) (qgs_geom (geoms ?st ! 0)) @
             drop (nat lasti) (qgs_geom (geoms ?st ! 0)) \<and>
           (\<forall>(f', l') \<in> set (stack ?st').
              l' \<le> first \<and> l' < int (length (qgs_geom (geoms ?st' ! 0))) \<and>
              take (nat (l' + 1)) (qgs_geom (geoms ?st' ! 0)) =
              take (nat (l' + 1)) (qgs_geom (geoms ?st ! 0)))"
    using ne diamond5_step1 ch by blast
  then have "\<exists>first lasti. stack ?st = (first, lasti) # [(0, 2)] \<and> first + 1 < lasti \<and>
      qgs_geom diamond4 =
        take (nat (first + 1)) (qgs_geom diamond5) @ drop (nat lasti) (qgs_geom diamond5) \<and>
      2 \<le> first \<and> 2 < int (length (qgs_geom diamond4)) \<and>
      take 3 (qgs_geom diamond4) = take 3 (qgs_geom diamond5)"
    unfolding g by simp
  moreover from T have "ordered_stack (stack ?st)" by blast
  moreover have "stack ?st = [(2, 4), (0, 2)]" by (simp add: diamond5_start)
  ultimately show ?thesis by blast
qed

section \<open>What a call of process_line does to the collection\<close>

lemma geom_shrinks_refl: "geom_shrinks g g"
  by (simp add: geom_shrinks_def)

lemma geom_shrinks_trans: "geom_shrinks a b \<Longrightarrow> geom_shrinks b c \<Longrightarrow> geom_shrinks a c"
  by (auto simp: geom_shrinks_def)

lemma coll_shrinks_refl: "coll_shrinks gs gs"
  by (simp add: coll_shrinks_def geom_shrinks_refl)

lemma coll_shrinks_trans: "coll_shrinks a b \<Longrightarrow> coll_shrinks b c \<Longrightarrow> coll_shrinks a c"
  unfolding coll_shrinks_def using geom_shrinks_trans by fastforce

lemma keeps_simplest_refl: "keeps_simplest gs gs"
  by (simp add: keeps_simplest_def)

lemma keeps_simplest_trans:
  "length b = length a \<Longrightarrow> keeps_simplest a b \<Longrightarrow> keeps_simplest b c \<Longrightarrow> keeps_simplest a c"
  by (auto simp: keeps_simplest_def)

lemma total_vertices_update:
  "k < length gs \<Longrightarrow>
   total_vertices (gs[k := g]) =
     total_vertices gs - int (length (qgs_geom (gs ! k))) + int (length (qgs_geom g))"
proof (induction gs arbitrary: k)
  case Nil
  then show ?case by simp
next
  case (Cons a gs)
  then show ?case by (cases k) (simp_all add: total_vertices_def)
qed

lemma total_vertices_change:
  assumes "length gs' = length gs" and "k < length gs"
    and "\<forall>j < length gs. j \<noteq> k \<longrightarrow> gs' ! j = gs ! j"
  shows "total_vertices gs' =
     total_vertices gs - int (length (qgs_geom (gs ! k))) + int (length (qgs_geom (gs' ! k)))"
proof -
  have "gs' = gs[k := gs' ! k]"
    using assms by (auto simp: list_eq_iff_nth_eq nth_list_update)
  then have "total_vertices gs' = total_vertices (gs[k := gs' ! k])" by simp
  with total_vertices_update[OF assms(2)] show ?thesis by simp
qed

lemma process_line_effect:
  assumes k: "k < length gs"
  shows "\<exists>pl. process_line env tolerance gs k = Inr pl \<and>
           within_process_line env tolerance gs k pl \<and> stack pl = [] \<and>
           0 \<le> nbr_vertice_deleted pl \<and>
           total_vertices (geoms pl) + nbr_vertice_deleted pl = total_vertices gs \<and>
           coll_shrinks gs (geoms pl) \<and>
           (\<forall>j < length gs. j \<noteq> k \<longrightarrow> geoms pl ! j = gs ! j)"
proof -
  from process_line_result[OF k, of env tolerance] obtain pl where
    pl: "process_line env tolerance gs k = Inr pl" and w: "within_process_line env tolerance gs k pl"
    and e: "stack pl = []" by blast
  note I = pl_invD[OF within_pl_inv[OF k w]]
  from total_vertices_change[OF I(1) k I(2)] I(5)
  have t: "total_vertices (geoms pl) + nbr_vertice_deleted pl = total_vertices gs" by linarith
  have gk: "geom_shrinks (gs ! k) (geoms pl ! k)"
    unfolding geom_shrinks_def using I(3,5,6,7,8) by simp
  have "coll_shrinks gs (geoms pl)"
    unfolding coll_shrinks_def
  proof (intro conjI allI impI)
    show "length (geoms pl) = length gs" by (rule I(1))
    fix j assume "j < length gs"
    with I(2) gk show "geom_shrinks (gs ! j) (geoms pl ! j)"
      by (cases "j = k") (simp_all add: geom_shrinks_refl)
  qed
  with pl w e I(6) t I(2) show ?thesis by blast
qed

lemma pl_inv_coll_shrinks:
  assumes k: "k < length gs" and inv: "pl_inv gs k pl"
  shows "coll_shrinks gs (geoms pl)"
proof -
  note I = pl_invD[OF inv]
  have gk: "geom_shrinks (gs ! k) (geoms pl ! k)"
    unfolding geom_shrinks_def using I(3,5,6,7,8) by simp
  show ?thesis
    unfolding coll_shrinks_def
  proof (intro conjI allI impI)
    show "length (geoms pl) = length gs" by (rule I(1))
    fix j assume "j < length gs"
    with I(2) gk show "geom_shrinks (gs ! j) (geoms pl ! j)"
      by (cases "j = k") (simp_all add: geom_shrinks_refl)
  qed
qed

lemma within_run_coll_shrinks:
  assumes "within_run env tolerance gs0 gs"
  shows "coll_shrinks gs0 gs"
  using assms
proof (induction rule: within_run.induct)
  case begin_run
  show ?case by (rule coll_shrinks_refl)
next
  case (in_line gs k pl)
  from coll_shrinks_trans[OF in_line.IH pl_inv_coll_shrinks[OF in_line.hyps(2)
        within_pl_inv[OF in_line.hyps(2,3)]]]
  show ?case .
qed

lemma pass_loop_effect:
  assumes "\<forall>i \<in> set is. i < length (sl_geoms st)"
  shows "\<exists>st' nbr'. pass_loop env tolerance is st nbr = Inr (st', nbr') \<and>
           nbr \<le> nbr' \<and>
           total_vertices (sl_geoms st') + nbr' = total_vertices (sl_geoms st) + nbr \<and>
           coll_shrinks (sl_geoms st) (sl_geoms st') \<and>
           keeps_simplest (sl_geoms st) (sl_geoms st') \<and>
           rb_results st' = rb_results st \<and>
           (\<forall>gs0. within_run env tolerance gs0 (sl_geoms st) \<longrightarrow>
                  within_run env tolerance gs0 (sl_geoms st'))"
  using assms
proof (induction "is" arbitrary: st nbr)
  case Nil
  then show ?case by (simp add: coll_shrinks_refl keeps_simplest_refl)
next
  case (Cons i rest)
  let ?st1 = "st\<lparr>polls := polls st + 1\<rparr>"
  show ?case
  proof (cases "isCanceled env (polls st)")
    case True
    then show ?thesis by (simp add: coll_shrinks_refl keeps_simplest_refl)
  next
    case nc: False
    show ?thesis
    proof (cases "is_simplest (sl_geoms st ! i)")
      case True
      from Cons.prems have "\<forall>i \<in> set rest. i < length (sl_geoms ?st1)" by simp
      from Cons.IH[OF this, of nbr] nc True show ?thesis by (simp add: Let_def)
    next
      case False
      from Cons.prems have i: "i < length (sl_geoms st)" by simp
      from process_line_effect[OF i, of env tolerance] obtain pl where
        pl: "process_line env tolerance (sl_geoms st) i = Inr pl"
        and w: "within_process_line env tolerance (sl_geoms st) i pl"
        and n0: "0 \<le> nbr_vertice_deleted pl"
        and t: "total_vertices (geoms pl) + nbr_vertice_deleted pl = total_vertices (sl_geoms st)"
        and cs: "coll_shrinks (sl_geoms st) (geoms pl)"
        and oth: "\<forall>j < length (sl_geoms st). j \<noteq> i \<longrightarrow> geoms pl ! j = sl_geoms st ! j"
        by blast
      let ?st2 = "?st1\<lparr>sl_geoms := geoms pl, feedback_log := feedback_log ?st1 @ trace pl\<rparr>"
      from cs have len: "length (geoms pl) = length (sl_geoms st)" by (simp add: coll_shrinks_def)
      with Cons.prems have "\<forall>i \<in> set rest. i < length (sl_geoms ?st2)" by simp
      from Cons.IH[OF this, of "nbr + nbr_vertice_deleted pl"] obtain st' nbr' where
        r: "pass_loop env tolerance rest ?st2 (nbr + nbr_vertice_deleted pl) = Inr (st', nbr')"
        and le: "nbr + nbr_vertice_deleted pl \<le> nbr'"
        and t': "total_vertices (sl_geoms st') + nbr' =
                 total_vertices (sl_geoms ?st2) + (nbr + nbr_vertice_deleted pl)"
        and cs': "coll_shrinks (sl_geoms ?st2) (sl_geoms st')"
        and ks': "keeps_simplest (sl_geoms ?st2) (sl_geoms st')"
        and rr: "rb_results st' = rb_results ?st2"
        and wr': "\<forall>gs0. within_run env tolerance gs0 (sl_geoms ?st2) \<longrightarrow>
                  within_run env tolerance gs0 (sl_geoms st')"
        by blast
      have ks: "keeps_simplest (sl_geoms st) (geoms pl)"
        unfolding keeps_simplest_def using oth False by auto
      have 1: "pass_loop env tolerance (i # rest) st nbr = Inr (st', nbr')"
        using nc False pl r by (simp add: Let_def)
      have 2: "nbr \<le> nbr'" using le n0 by linarith
      have 3: "total_vertices (sl_geoms st') + nbr' = total_vertices (sl_geoms st) + nbr"
        using t' t by simp
      have 4: "coll_shrinks (sl_geoms st) (sl_geoms st')"
        using coll_shrinks_trans[OF cs] cs' by simp
      have 5: "keeps_simplest (sl_geoms st) (sl_geoms st')"
        using keeps_simplest_trans[OF len ks] ks' by simp
      have 6: "rb_results st' = rb_results st" using rr by simp
      have 7: "\<forall>gs0. within_run env tolerance gs0 (sl_geoms st) \<longrightarrow>
                  within_run env tolerance gs0 (sl_geoms st')"
        using wr' within_run.in_line[OF _ i w] by simp
      from 1 2 3 4 5 6 7 show ?thesis by blast
    qed
  qed
qed

section \<open>The passes of a run\<close>

lemma total_vertices_nonneg: "0 \<le> total_vertices gs"
  unfolding total_vertices_def by (rule sum_list_nonneg) auto

lemma run_pass_effect:
  "\<exists>st3 n. run_pass env tolerance st = Inr (st3, n) \<and> 0 \<le> n \<and>
     total_vertices (sl_geoms st3) + n = total_vertices (sl_geoms st) \<and>
     coll_shrinks (sl_geoms st) (sl_geoms st3) \<and>
     keeps_simplest (sl_geoms st) (sl_geoms st3) \<and>
     rb_results st3 = (rb_results st)\<lparr>nbr_pass := nbr_pass (rb_results st) + 1\<rparr> \<and>
     (\<forall>gs0. within_run env tolerance gs0 (sl_geoms st) \<longrightarrow>
            within_run env tolerance gs0 (sl_geoms st3))"
proof -
  let ?st1 = "st\<lparr>rb_results := (rb_results st)\<lparr>nbr_pass := nbr_pass (rb_results st) + 1\<rparr>,
                 feedback_log := feedback_log st @ [Info_iteration (nbr_pass (rb_results st) + 1)]\<rparr>"
  have "\<forall>i \<in> set [0 ..< length (sl_geoms ?st1)]. i < length (sl_geoms ?st1)" by simp
  from pass_loop_effect[OF this, of env tolerance 0] obtain st2 n where
    p: "pass_loop env tolerance [0 ..< length (sl_geoms ?st1)] ?st1 0 = Inr (st2, n)"
    and n: "0 \<le> n"
    and t: "total_vertices (sl_geoms st2) + n = total_vertices (sl_geoms ?st1) + 0"
    and cs: "coll_shrinks (sl_geoms ?st1) (sl_geoms st2)"
    and ks: "keeps_simplest (sl_geoms ?st1) (sl_geoms st2)"
    and rr: "rb_results st2 = rb_results ?st1"
    and wr: "\<forall>gs0. within_run env tolerance gs0 (sl_geoms ?st1) \<longrightarrow>
                  within_run env tolerance gs0 (sl_geoms st2)"
    by blast
  let ?st3 = "st2\<lparr>feedback_log := feedback_log st2 @ [Info_vertice_deleted n]\<rparr>"
  from p have "run_pass env tolerance st = Inr (?st3, n)"
    by (simp add: run_pass_def Let_def)
  moreover from t have "total_vertices (sl_geoms ?st3) + n = total_vertices (sl_geoms st)" by simp
  moreover from cs have "coll_shrinks (sl_geoms st) (sl_geoms ?st3)" by simp
  moreover from ks have "keeps_simplest (sl_geoms st) (sl_geoms ?st3)" by simp
  moreover from rr have "rb_results ?st3 = (rb_results st)\<lparr>nbr_pass := nbr_pass (rb_results st) + 1\<rparr>"
    by simp
  moreover from wr have "\<forall>gs0. within_run env tolerance gs0 (sl_geoms st) \<longrightarrow>
            within_run env tolerance gs0 (sl_geoms ?st3)" by simp
  ultimately show ?thesis using n by blast
qed

lemma simplify_lines_terminates:
  "\<exists>ns st'. simplify_lines env tolerance st = Some (Inr st') \<and> run_passes env tolerance st ns st'"
proof (induction "nat (total_vertices (sl_geoms st))" arbitrary: st rule: less_induct)
  case less
  from run_pass_effect[of env tolerance st] obtain st3 n where
    rp: "run_pass env tolerance st = Inr (st3, n)" and n: "0 \<le> n"
    and t: "total_vertices (sl_geoms st3) + n = total_vertices (sl_geoms st)" by blast
  show ?case
  proof (cases "n = 0")
    case True
    with rp have "simplify_lines env tolerance st = Some (Inr st3)"
      by (subst simplify_lines.simps) simp
    moreover from rp True have "run_passes env tolerance st [0] st3"
      by (auto intro: run_passes.final)
    ultimately show ?thesis by blast
  next
    case False
    let ?st4 = "st3\<lparr>rb_results := (rb_results st3)
                 \<lparr>nbr_vertice_deleted_rb := nbr_vertice_deleted_rb (rb_results st3) + n\<rparr>\<rparr>"
    from False n t total_vertices_nonneg[of "sl_geoms st3"]
    have "nat (total_vertices (sl_geoms ?st4)) < nat (total_vertices (sl_geoms st))" by simp
    from less[OF this] obtain ns st' where
      s: "simplify_lines env tolerance ?st4 = Some (Inr st')"
      and r: "run_passes env tolerance ?st4 ns st'" by blast
    from rp False s have "simplify_lines env tolerance st = Some (Inr st')"
      by (subst simplify_lines.simps) simp
    moreover from run_passes.again[OF rp False r] have "run_passes env tolerance st (n # ns) st'" .
    ultimately show ?thesis by blast
  qed
qed

lemma run_passes_effect:
  assumes "run_passes env tolerance st ns st'"
  shows "ns \<noteq> [] \<and> last ns = 0 \<and> (\<forall>n \<in> set (butlast ns). 0 < n) \<and>
     total_vertices (sl_geoms st') + sum_list ns = total_vertices (sl_geoms st) \<and>
     coll_shrinks (sl_geoms st) (sl_geoms st') \<and>
     keeps_simplest (sl_geoms st) (sl_geoms st') \<and>
     rb_results st' = (rb_results st)
       \<lparr>nbr_vertice_deleted_rb := nbr_vertice_deleted_rb (rb_results st) + sum_list ns,
        nbr_pass := nbr_pass (rb_results st) + int (length ns)\<rparr> \<and>
     (\<forall>gs0. within_run env tolerance gs0 (sl_geoms st) \<longrightarrow>
            within_run env tolerance gs0 (sl_geoms st'))"
  using assms
proof (induction rule: run_passes.induct)
  case (final st st3)
  from run_pass_effect[of env tolerance st] final show ?case by auto
next
  case (again st st3 n ns st')
  let ?st4 = "st3\<lparr>rb_results := (rb_results st3)
                 \<lparr>nbr_vertice_deleted_rb := nbr_vertice_deleted_rb (rb_results st3) + n\<rparr>\<rparr>"
  from run_pass_effect[of env tolerance st] again.hyps(1) have
    n: "0 \<le> n" and t: "total_vertices (sl_geoms st3) + n = total_vertices (sl_geoms st)"
    and cs: "coll_shrinks (sl_geoms st) (sl_geoms st3)"
    and ks: "keeps_simplest (sl_geoms st) (sl_geoms st3)"
    and rr: "rb_results st3 = (rb_results st)\<lparr>nbr_pass := nbr_pass (rb_results st) + 1\<rparr>"
    and wr: "\<forall>gs0. within_run env tolerance gs0 (sl_geoms st) \<longrightarrow>
            within_run env tolerance gs0 (sl_geoms st3)"
    by auto
  from again.IH have ne: "ns \<noteq> []" and l: "last ns = 0" and p: "\<forall>n \<in> set (butlast ns). 0 < n"
    and t': "total_vertices (sl_geoms st') + sum_list ns = total_vertices (sl_geoms ?st4)"
    and cs': "coll_shrinks (sl_geoms ?st4) (sl_geoms st')"
    and ks': "keeps_simplest (sl_geoms ?st4) (sl_geoms st')"
    and rr': "rb_results st' = (rb_results ?st4)
       \<lparr>nbr_vertice_deleted_rb := nbr_vertice_deleted_rb (rb_results ?st4) + sum_list ns,
        nbr_pass := nbr_pass (rb_results ?st4) + int (length ns)\<rparr>"
    and wr': "\<forall>gs0. within_run env tolerance gs0 (sl_geoms ?st4) \<longrightarrow>
            within_run env tolerance gs0 (sl_geoms st')"
    by blast+
  from cs have len: "length (sl_geoms st3) = length (sl_geoms st)" by (simp add: coll_shrinks_def)
  have 1: "n # ns \<noteq> [] \<and> last (n # ns) = 0" using ne l by simp
  have 2: "\<forall>m \<in> set (butlast (n # ns)). 0 < m" using ne p n again.hyps(2) by auto
  have 3: "total_vertices (sl_geoms st') + sum_list (n # ns) = total_vertices (sl_geoms st)"
    using t t' by simp
  have 4: "coll_shrinks (sl_geoms st) (sl_geoms st')"
    using coll_shrinks_trans[OF cs] cs' by simp
  have 5: "keeps_simplest (sl_geoms st) (sl_geoms st')"
    using keeps_simplest_trans[OF len ks] ks' by simp
  have 6: "rb_results st' = (rb_results st)
       \<lparr>nbr_vertice_deleted_rb := nbr_vertice_deleted_rb (rb_results st) + sum_list (n # ns),
        nbr_pass := nbr_pass (rb_results st) + int (length (n # ns))\<rparr>"
    unfolding rr' by (simp add: rr add.assoc)
  have 7: "\<forall>gs0. within_run env tolerance gs0 (sl_geoms st) \<longrightarrow>
            within_run env tolerance gs0 (sl_geoms st')"
    using wr wr' by simp
  from 1 2 3 4 5 6 7 show ?case by blast
qed

section \<open>Evaluation of a run on a line of three points\<close>

lemma process_loop_done:
  "stack st = [] \<Longrightarrow> process_loop env tolerance qgs_points k st = Inr st"
  by (simp add: process_loop.simps)

lemma process_loop_turn:
  "stack st \<noteq> [] \<Longrightarrow> process_step env tolerance qgs_points k st = Inr st' \<Longrightarrow>
   process_loop env tolerance qgs_points k st = process_loop env tolerance qgs_points k st'"
  by (simp add: process_loop.simps[of env tolerance qgs_points k st])

lemma line3_process_line:
  assumes "a \<noteq> b" and "segment_distance a b m \<le> tolerance"
    and "1 / 1000000 \<le> segment_distance a a b"
  shows "process_line plane_engine tolerance
           [\<lparr>id_rb = 0, qgs_geom = [a, m, b], is_simplest = s\<rparr>] 0 =
         Inr \<lparr>stack = [],
              geoms = [\<lparr>id_rb = 0, qgs_geom = [a, b], is_simplest = True\<rparr>],
              nbr_vertice_deleted = 1,
              trace = [Check_simplicity True, Validated 0 2 True]\<rparr>"
proof -
  let ?g = "\<lparr>id_rb = 0, qgs_geom = [a, m, b], is_simplest = True\<rparr>"
  let ?s0 = "\<lparr>stack = [(0, 2)], geoms = [?g], nbr_vertice_deleted = 0, trace = []\<rparr>
               :: (real \<times> real) pl_state"
  let ?s1 = "\<lparr>stack = [], geoms = [\<lparr>id_rb = 0, qgs_geom = [a, b], is_simplest = True\<rparr>],
              nbr_vertice_deleted = 1,
              trace = [Check_simplicity True, Validated 0 2 True]\<rparr> :: (real \<times> real) pl_state"
  have start: "pl_start [\<lparr>id_rb = 0, qgs_geom = [a, m, b], is_simplest = s\<rparr>] 0 = ?s0"
    using assms(1) by (simp add: pl_start_def init_stack_def isClosed_def)
  have ffp: "find_farthest_point plane_engine [a, m, b] 0 2 = Inr (1, segment_distance a b m)"
    by (simp add: find_farthest_point_def py_index_def upto.simps py_max_def plane_engine_fields)
  have vc: "validate_constraints plane_engine (geoms ?s0) (geoms ?s0 ! 0) 0 2 =
              Inr (True, [Check_simplicity True])"
    using assms(1,3)
    by (simp add: validate_constraints_def plane_engine_fields vertexAt_vals isClosed_def Let_def)
  have "process_step plane_engine tolerance [a, m, b] 0 ?s0 =
          Inr (?s0\<lparr>stack := [],
                  geoms := (geoms ?s0)[0 := delete_vertex (geoms ?s0 ! 0) (0 + 1) (2 - 1)],
                  nbr_vertice_deleted := nbr_vertice_deleted ?s0 + (2 - 0 - 1),
                  trace := trace ?s0 @ [Check_simplicity True] @ [Validated 0 2 True]\<rparr>)"
    by (rule process_step_collapseI[OF _ _ ffp assms(2) vc]) simp_all
  then have step: "process_step plane_engine tolerance [a, m, b] 0 ?s0 = Inr ?s1"
    by (simp add: delete_vertex_def)
  have "process_loop plane_engine tolerance [a, m, b] 0 ?s0 =
        process_loop plane_engine tolerance [a, m, b] 0 ?s1"
    by (rule process_loop_turn[OF _ step]) simp
  also have "\<dots> = Inr ?s1" by (rule process_loop_done) simp
  finally show ?thesis
    unfolding process_line_start start by simp
qed

lemma line3_simplify_lines:
  assumes "a \<noteq> b" and "segment_distance a b m \<le> tolerance"
    and "1 / 1000000 \<le> segment_distance a a b"
  shows "simplify_lines plane_engine tolerance
           \<lparr>sl_geoms = [\<lparr>id_rb = 0, qgs_geom = [a, m, b], is_simplest = False\<rparr>],
            rb_results = r, feedback_log = [], polls = 0\<rparr> =
         Some (Inr \<lparr>sl_geoms = [\<lparr>id_rb = 0, qgs_geom = [a, b], is_simplest = True\<rparr>],
                    rb_results = r\<lparr>nbr_vertice_deleted_rb := nbr_vertice_deleted_rb r + 1,
                                   nbr_pass := nbr_pass r + 2\<rparr>,
                    feedback_log =
                      [Info_iteration (nbr_pass r + 1), Check_simplicity True, Validated 0 2 True,
                       Info_vertice_deleted 1, Info_iteration (nbr_pass r + 2),
                       Info_vertice_deleted 0],
                    polls = 2\<rparr>)"
proof -
  let ?S0 = "\<lparr>sl_geoms = [\<lparr>id_rb = 0, qgs_geom = [a, m, b], is_simplest = False\<rparr>],
            rb_results = r, feedback_log = [], polls = 0\<rparr>"
  let ?S1 = "\<lparr>sl_geoms = [\<lparr>id_rb = 0, qgs_geom = [a, b], is_simplest = True\<rparr>],
             rb_results = r\<lparr>nbr_pass := nbr_pass r + 1\<rparr>,
             feedback_log = [Info_iteration (nbr_pass r + 1), Check_simplicity True,
                             Validated 0 2 True, Info_vertice_deleted 1],
             polls = 1\<rparr>"
  let ?S2 = "?S1\<lparr>rb_results := (rb_results ?S1)
               \<lparr>nbr_vertice_deleted_rb := nbr_vertice_deleted_rb (rb_results ?S1) + 1\<rparr>\<rparr>"
  let ?S3 = "\<lparr>sl_geoms = [\<lparr>id_rb = 0, qgs_geom = [a, b], is_simplest = True\<rparr>],
                    rb_results = r\<lparr>nbr_vertice_deleted_rb := nbr_vertice_deleted_rb r + 1,
                                   nbr_pass := nbr_pass r + 2\<rparr>,
                    feedback_log =
                      [Info_iteration (nbr_pass r + 1), Check_simplicity True, Validated 0 2 True,
                       Info_vertice_deleted 1, Info_iteration (nbr_pass r + 2),
                       Info_vertice_deleted 0],
                    polls = 2\<rparr>"
  have p1: "run_pass plane_engine tolerance ?S0 = Inr (?S1, 1)"
    by (simp add: run_pass_def Let_def plane_engine_fields line3_process_line[OF assms])
  show ?thesis
    apply (subst simplify_lines.simps)
    apply (simp add: p1)
    apply (subst simplify_lines.simps)
    apply (simp add: run_pass_def Let_def plane_engine_fields)
    done
qed

section \<open>Convergence of the passes\<close>

lemma pl_inv_total:
  assumes k: "k < length gs" and inv: "pl_inv gs k pl"
  shows "total_vertices (geoms pl) + nbr_vertice_deleted pl = total_vertices gs"
  using total_vertices_change[OF pl_invD(1)[OF inv] k pl_invD(2)[OF inv]] pl_invD(5)[OF inv]
  by linarith

lemma process_step_vertices:
  assumes k: "k < length gs"
    and w: "within_process_line env tolerance gs k pl"
    and ne: "stack pl \<noteq> []"
    and step: "process_step env tolerance (qgs_geom (gs ! k)) k pl = Inr pl'"
  shows "length (geoms pl') = length (geoms pl) \<and>
     (\<forall>j < length (geoms pl).
        length (qgs_geom (geoms pl' ! j)) \<le> length (qgs_geom (geoms pl ! j))) \<and>
     total_vertices (geoms pl') + (nbr_vertice_deleted pl' - nbr_vertice_deleted pl) =
       total_vertices (geoms pl) \<and>
     (qgs_geom (geoms pl' ! k) \<noteq> qgs_geom (geoms pl ! k) \<longrightarrow>
        total_vertices (geoms pl') < total_vertices (geoms pl))"
proof -
  note w' = within_process_line.turn[OF w ne step]
  note I = pl_invD[OF within_pl_inv[OF k w]]
  note I' = pl_invD[OF within_pl_inv[OF k w']]
  have len: "length (geoms pl') = length (geoms pl)" using I(1) I'(1) by simp
  have tot: "total_vertices (geoms pl') + (nbr_vertice_deleted pl' - nbr_vertice_deleted pl) =
       total_vertices (geoms pl)"
    using pl_inv_total[OF k within_pl_inv[OF k w]] pl_inv_total[OF k within_pl_inv[OF k w']]
    by linarith
  have kk: "length (qgs_geom (geoms pl' ! k)) \<le> length (qgs_geom (geoms pl ! k)) \<and>
     (qgs_geom (geoms pl' ! k) \<noteq> qgs_geom (geoms pl ! k) \<longrightarrow>
        nbr_vertice_deleted pl < nbr_vertice_deleted pl')"
  proof (cases "qgs_geom (geoms pl' ! k) = qgs_geom (geoms pl ! k)")
    case True
    then show ?thesis by simp
  next
    case False
    from process_step_deletion[OF k w ne step False] obtain first lasti where
      "first + 1 < lasti"
      "nbr_vertice_deleted pl' = nbr_vertice_deleted pl + (lasti - first - 1)"
      "int (length (qgs_geom (geoms pl' ! k))) =
         int (length (qgs_geom (geoms pl ! k))) - (lasti - first - 1)"
      by blast
    then show ?thesis by linarith
  qed
  have all: "\<forall>j < length (geoms pl).
        length (qgs_geom (geoms pl' ! j)) \<le> length (qgs_geom (geoms pl ! j))"
  proof (intro allI impI)
    fix j assume j: "j < length (geoms pl)"
    show "length (qgs_geom (geoms pl' ! j)) \<le> length (qgs_geom (geoms pl ! j))"
    proof (cases "j = k")
      case True
      with kk show ?thesis by simp
    next
      case False
      with j I(1,2) I'(2) show ?thesis by simp
    qed
  qed
  from kk tot have "qgs_geom (geoms pl' ! k) \<noteq> qgs_geom (geoms pl ! k) \<longrightarrow>
        total_vertices (geoms pl') < total_vertices (geoms pl)" by linarith
  with len all tot show ?thesis by blast
qed

lemma pass_loop_polls:
  assumes "\<forall>n. \<not> isCanceled env n" and "\<forall>i \<in> set is. i < length (sl_geoms st)"
    and "pass_loop env tolerance is st nbr = Inr (st', nbr')"
  shows "polls st' = polls st + length is"
  using assms(2,3)
proof (induction "is" arbitrary: st nbr)
  case Nil
  then show ?case by simp
next
  case (Cons i rest)
  let ?st1 = "st\<lparr>polls := polls st + 1\<rparr>"
  from assms(1) have nc: "\<not> isCanceled env (polls st)" by simp
  show ?case
  proof (cases "is_simplest (sl_geoms st ! i)")
    case True
    with Cons.prems(2) nc have "pass_loop env tolerance rest ?st1 nbr = Inr (st', nbr')"
      by (simp add: Let_def)
    moreover from Cons.prems(1) have "\<forall>i \<in> set rest. i < length (sl_geoms ?st1)" by simp
    ultimately have "polls st' = polls ?st1 + length rest" by (rule Cons.IH[rotated])
    then show ?thesis by simp
  next
    case False
    from Cons.prems(1) have i: "i < length (sl_geoms st)" by simp
    from process_line_effect[OF i, of env tolerance] obtain pl where
      pl: "process_line env tolerance (sl_geoms st) i = Inr pl"
      and cs: "coll_shrinks (sl_geoms st) (geoms pl)" by blast
    let ?st2 = "?st1\<lparr>sl_geoms := geoms pl, feedback_log := feedback_log ?st1 @ trace pl\<rparr>"
    from Cons.prems(2) nc False pl
    have "pass_loop env tolerance rest ?st2 (nbr + nbr_vertice_deleted pl) = Inr (st', nbr')"
      by (simp add: Let_def)
    moreover from cs Cons.prems(1) have "\<forall>i \<in> set rest. i < length (sl_geoms ?st2)"
      by (simp add: coll_shrinks_def)
    ultimately have "polls st' = polls ?st2 + length rest" by (rule Cons.IH[rotated])
    then show ?thesis by simp
  qed
qed

lemma run_pass_polls:
  assumes "\<forall>n. \<not> isCanceled env n" and "run_pass env tolerance st = Inr (st3, n)"
  shows "polls st3 = polls st + length (sl_geoms st)"
proof -
  let ?st1 = "st\<lparr>rb_results := (rb_results st)\<lparr>nbr_pass := nbr_pass (rb_results st) + 1\<rparr>,
                 feedback_log := feedback_log st @ [Info_iteration (nbr_pass (rb_results st) + 1)]\<rparr>"
  from assms(2) obtain st2 where
    p: "pass_loop env tolerance [0 ..< length (sl_geoms ?st1)] ?st1 0 = Inr (st2, n)"
    and e: "st3 = st2\<lparr>feedback_log := feedback_log st2 @ [Info_vertice_deleted n]\<rparr>"
    by (auto simp: run_pass_def Let_def split: sum.splits)
  have "\<forall>i \<in> set [0 ..< length (sl_geoms ?st1)]. i < length (sl_geoms ?st1)" by simp
  from pass_loop_polls[OF assms(1) this p] e show ?thesis by simp
qed

lemma run_passes_polls:
  assumes "\<forall>n. \<not> isCanceled env n" and "run_passes env tolerance st ns st'"
  shows "polls st' = polls st + length ns * length (sl_geoms st)"
  using assms(2)
proof (induction rule: run_passes.induct)
  case (final st st3)
  from run_pass_polls[OF assms(1) final] show ?case by simp
next
  case (again st st3 n ns st')
  from run_pass_effect[of env tolerance st] again.hyps(1)
  have "coll_shrinks (sl_geoms st) (sl_geoms st3)" by auto
  then have "length (sl_geoms st3) = length (sl_geoms st)" by (simp add: coll_shrinks_def)
  with run_pass_polls[OF assms(1) again.hyps(1)] again.IH show ?case by simp
qed

text \<open>
  C4. From every state \<^verbatim>\<open>_simplify_lines\<close> returns, without an exception. It makes
  passes until one deletes nothing: the counts \<open>ns\<close> of its passes are positive but for
  the last, which is 0. No geometry has more vertices at the end than at the start,
  the total number of vertices has dropped by the sum of the counts, the reported
  number of deleted vertices has grown by the sum of the counts and the number of
  passes by their number. In every turn of the loop of \<^verbatim>\<open>process_line\<close> no geometry
  gains a vertex, the total drops by what the turn adds to the count, and a turn
  that changes the line (a successful collapse) makes the total strictly smaller.
  When the cancellation poll never answers yes, every pass visits every geometry:
  the number of polls grows by the number of geometries with each pass.
\<close>

theorem simplify_lines_converges:
  "(\<exists>ns st'. simplify_lines env tolerance st = Some (Inr st') \<and>
      run_passes env tolerance st ns st' \<and> ns \<noteq> [] \<and> last ns = 0 \<and>
      (\<forall>n \<in> set (butlast ns). 0 < n) \<and>
      length (sl_geoms st') = length (sl_geoms st) \<and>
      (\<forall>j < length (sl_geoms st).
         length (qgs_geom (sl_geoms st' ! j)) \<le> length (qgs_geom (sl_geoms st ! j))) \<and>
      total_vertices (sl_geoms st') + sum_list ns = total_vertices (sl_geoms st) \<and>
      nbr_vertice_deleted_rb (rb_results st') =
        nbr_vertice_deleted_rb (rb_results st) + sum_list ns \<and>
      nbr_pass (rb_results st') = nbr_pass (rb_results st) + int (length ns) \<and>
      ((\<forall>n. \<not> isCanceled env n) \<longrightarrow>
         polls st' = polls st + length ns * length (sl_geoms st))) \<and>
   (\<forall>gs k pl pl'.
      k < length gs \<and> within_process_line env tolerance gs k pl \<and> stack pl \<noteq> [] \<and>
      process_step env tolerance (qgs_geom (gs ! k)) k pl = Inr pl' \<longrightarrow>
      length (geoms pl') = length (geoms pl) \<and>
      (\<forall>j < length (geoms pl).
         length (qgs_geom (geoms pl' ! j)) \<le> length (qgs_geom (geoms pl ! j))) \<and>
      total_vertices (geoms pl') + (nbr_vertice_deleted pl' - nbr_vertice_deleted pl) =
        total_vertices (geoms pl) \<and>
      (qgs_geom (geoms pl' ! k) \<noteq> qgs_geom (geoms pl ! k) \<longrightarrow>
         total_vertices (geoms pl') < total_vertices (geoms pl)))"
proof (rule conjI)
  from simplify_lines_terminates[of env tolerance st] obtain ns st' where
    s: "simplify_lines env tolerance st = Some (Inr st')"
    and r: "run_passes env tolerance st ns st'" by blast
  from run_passes_effect[OF r] have
    e: "ns \<noteq> []" "last ns = 0" "\<forall>n \<in> set (butlast ns). 0 < n"
      "total_vertices (sl_geoms st') + sum_list ns = total_vertices (sl_geoms st)"
    and cs: "coll_shrinks (sl_geoms st) (sl_geoms st')"
    and rr: "rb_results st' = (rb_results st)
       \<lparr>nbr_vertice_deleted_rb := nbr_vertice_deleted_rb (rb_results st) + sum_list ns,
        nbr_pass := nbr_pass (rb_results st) + int (length ns)\<rparr>"
    by blast+
  from cs have len: "length (sl_geoms st') = length (sl_geoms st)"
    and le: "\<forall>j < length (sl_geoms st).
         length (qgs_geom (sl_geoms st' ! j)) \<le> length (qgs_geom (sl_geoms st ! j))"
    by (simp_all add: coll_shrinks_def geom_shrinks_def)
  from rr have
    "nbr_vertice_deleted_rb (rb_results st') = nbr_vertice_deleted_rb (rb_results st) + sum_list ns"
    "nbr_pass (rb_results st') = nbr_pass (rb_results st) + int (length ns)"
    by simp_all
  with s r e len le
  show "\<exists>ns st'. simplify_lines env tolerance st = Some (Inr st') \<and>
      run_passes env tolerance st ns st' \<and> ns \<noteq> [] \<and> last ns = 0 \<and>
      (\<forall>n \<in> set (butlast ns). 0 < n) \<and>
      length (sl_geoms st') = length (sl_geoms st) \<and>
      (\<forall>j < length (sl_geoms st).
         length (qgs_geom (sl_geoms st' ! j)) \<le> length (qgs_geom (sl_geoms st ! j))) \<and>
      total_vertices (sl_geoms st') + sum_list ns = total_vertices (sl_geoms st) \<and>
      nbr_vertice_deleted_rb (rb_results st') =
        nbr_vertice_deleted_rb (rb_results st) + sum_list ns \<and>
      nbr_pass (rb_results st') = nbr_pass (rb_results st) + int (length ns) \<and>
      ((\<forall>n. \<not> isCanceled env n) \<longrightarrow>
         polls st' = polls st + length ns * length (sl_geoms st))"
    using run_passes_polls[OF _ r] by blast
next
  show "\<forall>gs k pl pl'.
      k < length gs \<and> within_process_line env tolerance gs k pl \<and> stack pl \<noteq> [] \<and>
      process_step env tolerance (qgs_geom (gs ! k)) k pl = Inr pl' \<longrightarrow>
      length (geoms pl') = length (geoms pl) \<and>
      (\<forall>j < length (geoms pl).
         length (qgs_geom (geoms pl' ! j)) \<le> length (qgs_geom (geoms pl ! j))) \<and>
      total_vertices (geoms pl') + (nbr_vertice_deleted pl' - nbr_vertice_deleted pl) =
        total_vertices (geoms pl) \<and>
      (qgs_geom (geoms pl' ! k) \<noteq> qgs_geom (geoms pl ! k) \<longrightarrow>
         total_vertices (geoms pl') < total_vertices (geoms pl))"
    using process_step_vertices by blast
qed

theorem simplify_lines_converges_witness:
  "simplify_lines plane_engine 1
     \<lparr>sl_geoms = [bend3], rb_results = results0, feedback_log = [], polls = 0\<rparr> =
   Some (Inr \<lparr>sl_geoms = [\<lparr>id_rb = 0, qgs_geom = [(0, 0), (2, 0)], is_simplest = True\<rparr>],
              rb_results = results0\<lparr>nbr_vertice_deleted_rb := 1, nbr_pass := 2\<rparr>,
              feedback_log =
                [Info_iteration 1, Check_simplicity True, Validated 0 2 True,
                 Info_vertice_deleted 1, Info_iteration 2, Info_vertice_deleted 0],
              polls = 2\<rparr>) \<and>
   (\<exists>ns :: int list. sum_list ns = 1 \<and> length ns = 2 \<and> last ns = 0)"
proof -
  let ?S0 = "\<lparr>sl_geoms = [bend3], rb_results = results0, feedback_log = [], polls = 0\<rparr>"
  have ev: "simplify_lines plane_engine 1 ?S0 =
   Some (Inr \<lparr>sl_geoms = [\<lparr>id_rb = 0, qgs_geom = [(0, 0), (2, 0)], is_simplest = True\<rparr>],
              rb_results = results0\<lparr>nbr_vertice_deleted_rb := 1, nbr_pass := 2\<rparr>,
              feedback_log =
                [Info_iteration 1, Check_simplicity True, Validated 0 2 True,
                 Info_vertice_deleted 1, Info_iteration 2, Info_vertice_deleted 0],
              polls = 2\<rparr>)"
    unfolding bend3_def
    by (subst line3_simplify_lines) (simp_all add: seg_dist_vals results0_def)
  from simplify_lines_converges[of plane_engine 1 ?S0] obtain ns st' where
    s: "simplify_lines plane_engine 1 ?S0 = Some (Inr st')" and l: "last ns = 0"
    and d: "nbr_vertice_deleted_rb (rb_results st') =
        nbr_vertice_deleted_rb (rb_results ?S0) + sum_list ns"
    and p: "nbr_pass (rb_results st') = nbr_pass (rb_results ?S0) + int (length ns)"
    by blast
  from s ev have "st' = \<lparr>sl_geoms = [\<lparr>id_rb = 0, qgs_geom = [(0, 0), (2, 0)], is_simplest = True\<rparr>],
              rb_results = results0\<lparr>nbr_vertice_deleted_rb := 1, nbr_pass := 2\<rparr>,
              feedback_log =
                [Info_iteration 1, Check_simplicity True, Validated 0 2 True,
                 Info_vertice_deleted 1, Info_iteration 2, Info_vertice_deleted 0],
              polls = 2\<rparr>" by simp
  with d p have "sum_list ns = 1" "length ns = 2" by (simp_all add: results0_def)
  with l ev show ?thesis by blast
qed

section \<open>Rings keep four points\<close>

text \<open>
  C3. For a closed geometry \<^verbatim>\<open>validate_constraints\<close> returns false, before any other
  check, whenever the count of points left after the collapse, \<open>numPoints - (last -
  first - 1)\<close>, is 3 or less. Consequently, in every collection that a run goes through
  from a collection \<open>gs0\<close>, every geometry that is closed with at least 4 points in
  \<open>gs0\<close> is still closed with at least 4 points; and the collection that
  \<^verbatim>\<open>_simplify_lines\<close> returns is such a collection.
\<close>

theorem closed_geometry_keeps_four_points:
  "(isClosed (qgs_geom g) \<and> int (length (qgs_geom g)) - (lasti - first - 1) \<le> 3 \<longrightarrow>
      validate_constraints env rb_geoms g first lasti = Inr (False, [])) \<and>
   (\<forall>gs. within_run env tolerance gs0 gs \<longrightarrow>
      length gs = length gs0 \<and>
      (\<forall>j < length gs0. isClosed (qgs_geom (gs0 ! j)) \<and> 4 \<le> length (qgs_geom (gs0 ! j)) \<longrightarrow>
         isClosed (qgs_geom (gs ! j)) \<and> 4 \<le> length (qgs_geom (gs ! j)))) \<and>
   (\<exists>st'. simplify_lines env tolerance st = Some (Inr st') \<and>
      within_run env tolerance (sl_geoms st) (sl_geoms st'))"
proof (intro conjI allI impI)
  assume "isClosed (qgs_geom g) \<and> int (length (qgs_geom g)) - (lasti - first - 1) \<le> 3"
  then show "validate_constraints env rb_geoms g first lasti = Inr (False, [])"
    by (rule validate_constraints_guard)
next
  fix gs assume w: "within_run env tolerance gs0 gs"
  from within_run_coll_shrinks[OF w] show "length gs = length gs0"
    by (simp add: coll_shrinks_def)
next
  fix gs j
  assume w: "within_run env tolerance gs0 gs" and j: "j < length gs0"
    and c: "isClosed (qgs_geom (gs0 ! j)) \<and> 4 \<le> length (qgs_geom (gs0 ! j))"
  from within_run_coll_shrinks[OF w] j have g: "geom_shrinks (gs0 ! j) (gs ! j)"
    by (simp add: coll_shrinks_def)
  from g c show "isClosed (qgs_geom (gs ! j))" by (simp add: geom_shrinks_def)
  from g c show "4 \<le> length (qgs_geom (gs ! j))" by (simp add: geom_shrinks_def)
next
  from simplify_lines_terminates[of env tolerance st] obtain ns st' where
    s: "simplify_lines env tolerance st = Some (Inr st')"
    and r: "run_passes env tolerance st ns st'" by blast
  from run_passes_effect[OF r] within_run.begin_run[of env tolerance "sl_geoms st"]
  have "within_run env tolerance (sl_geoms st) (sl_geoms st')" by blast
  with s show "\<exists>st'. simplify_lines env tolerance st = Some (Inr st') \<and>
      within_run env tolerance (sl_geoms st) (sl_geoms st')" by blast
qed

lemma diamond5_within_run: "within_run plane_engine 1 [diamond5] [diamond4]"
proof -
  have k: "0 < length [diamond5]" by simp
  have q: "[diamond5] ! 0 = diamond5" by simp
  have "within_process_line plane_engine 1 [diamond5] 0
          \<lparr>stack = [(0, 2)], geoms = [diamond4], nbr_vertice_deleted = 1,
           trace = [Check_simplicity True, Validated 2 4 True]\<rparr>"
    by (rule within_process_line.turn[OF within_process_line.start])
       (simp_all add: q diamond5_step1, simp add: diamond5_start)
  from within_run.in_line[OF within_run.begin_run k this] show ?thesis by simp
qed

theorem closed_geometry_keeps_four_points_witness:
  "validate_constraints plane_engine [diamond4] diamond4 0 2 = Inr (False, []) \<and>
   within_run plane_engine 1 [diamond5] [diamond4] \<and>
   isClosed (qgs_geom diamond5) \<and> 4 \<le> length (qgs_geom diamond5) \<and>
   isClosed (qgs_geom diamond4) \<and> 4 \<le> length (qgs_geom diamond4)"
proof -
  have c5: "isClosed (qgs_geom diamond5) \<and> 4 \<le> length (qgs_geom diamond5)"
    by (simp add: diamond5_def isClosed_def)
  have d: "isClosed (qgs_geom diamond4) \<and> int (length (qgs_geom diamond4)) - (2 - 0 - 1) \<le> 3"
    by (simp add: diamond4_def isClosed_def)
  note T = closed_geometry_keeps_four_points[of diamond4 2 0 plane_engine "[diamond4]" 1
      "[diamond5]" "\<lparr>sl_geoms = [], rb_results = results0, feedback_log = [], polls = 0\<rparr>"]
  from T d have v: "validate_constraints plane_engine [diamond4] diamond4 0 2 = Inr (False, [])"
    by blast
  from T diamond5_within_run
  have "\<forall>j < length [diamond5]. isClosed (qgs_geom ([diamond5] ! j)) \<and>
           4 \<le> length (qgs_geom ([diamond5] ! j)) \<longrightarrow>
         isClosed (qgs_geom ([diamond4] ! j)) \<and> 4 \<le> length (qgs_geom ([diamond4] ! j))"
    by blast
  with c5 have "isClosed (qgs_geom diamond4) \<and> 4 \<le> length (qgs_geom diamond4)" by simp
  with v diamond5_within_run c5 show ?thesis by blast
qed

section \<open>The flag is_simplest\<close>

lemma within_flag:
  assumes k: "k < length gs" and w: "within_process_line env tolerance gs k pl"
  shows "is_simplest (geoms pl ! k) = (\<forall>a b. Validated a b False \<notin> set (trace pl))"
  using w
proof (induction rule: within_process_line.induct)
  case start
  from k show ?case by (simp add: pl_start_def)
next
  case (turn st st')
  note I = pl_invD[OF within_pl_inv[OF k turn.hyps(1)]]
  from turn.hyps(2) obtain first lasti rest where st: "stack st = (first, lasti) # rest"
    by (cases "stack st") auto
  from turn.hyps(3) st show ?case
  proof (cases rule: process_step_cases)
    case short
    with turn.IH show ?thesis by simp
  next
    case (split fi fd)
    with turn.IH show ?thesis by simp
  next
    case (collapse fi fd evs)
    from validate_constraints_events[OF collapse(4)]
    have "\<forall>a b. Validated a b False \<notin> set evs" by blast
    with collapse(5) turn.IH k I(1) show ?thesis
      by (simp add: delete_vertex_fields)
  next
    case (reject fi fd evs)
    with k I(1) show ?thesis by auto
  qed
qed

text \<open>
  C7, as amended. After \<^verbatim>\<open>process_line\<close> the geometry is marked \<open>is_simplest\<close> exactly
  when the validator rejected none of the spans submitted to it in this call. In a
  pass, a geometry that is marked is skipped: the loop goes on to the next geometry
  without a call of \<^verbatim>\<open>process_line\<close>. A geometry that is marked in a state is the same
  in the state that \<^verbatim>\<open>_simplify_lines\<close> returns from there, so every later pass skipped
  it.
\<close>

theorem is_simplest_marks_no_rejection:
  "(k < length gs \<longrightarrow>
      (\<exists>pl. process_line env tolerance gs k = Inr pl \<and>
         is_simplest (geoms pl ! k) = (\<forall>a b. Validated a b False \<notin> set (trace pl)))) \<and>
   (is_simplest (sl_geoms st ! i) \<and> \<not> isCanceled env (polls st) \<longrightarrow>
      pass_loop env tolerance (i # rest) st nbr =
      pass_loop env tolerance rest (st\<lparr>polls := polls st + 1\<rparr>) nbr) \<and>
   (\<exists>st'. simplify_lines env tolerance st = Some (Inr st') \<and>
      (\<forall>j < length (sl_geoms st). is_simplest (sl_geoms st ! j) \<longrightarrow>
         sl_geoms st' ! j = sl_geoms st ! j))"
proof (intro conjI impI)
  assume k: "k < length gs"
  from process_line_result[OF k, of env tolerance] obtain pl where
    "process_line env tolerance gs k = Inr pl" "within_process_line env tolerance gs k pl"
    by blast
  with within_flag[OF k] show "\<exists>pl. process_line env tolerance gs k = Inr pl \<and>
         is_simplest (geoms pl ! k) = (\<forall>a b. Validated a b False \<notin> set (trace pl))"
    by blast
next
  assume "is_simplest (sl_geoms st ! i) \<and> \<not> isCanceled env (polls st)"
  then show "pass_loop env tolerance (i # rest) st nbr =
      pass_loop env tolerance rest (st\<lparr>polls := polls st + 1\<rparr>) nbr"
    by (simp add: Let_def)
next
  from simplify_lines_terminates[of env tolerance st] obtain ns st' where
    s: "simplify_lines env tolerance st = Some (Inr st')"
    and r: "run_passes env tolerance st ns st'" by blast
  from run_passes_effect[OF r] have "keeps_simplest (sl_geoms st) (sl_geoms st')" by blast
  with s show "\<exists>st'. simplify_lines env tolerance st = Some (Inr st') \<and>
      (\<forall>j < length (sl_geoms st). is_simplest (sl_geoms st ! j) \<longrightarrow>
         sl_geoms st' ! j = sl_geoms st ! j)"
    unfolding keeps_simplest_def by blast
qed

lemma bend3_process_line:
  "process_line plane_engine 1 [bend3] 0 =
     Inr \<lparr>stack = [], geoms = [bend2], nbr_vertice_deleted = 1,
          trace = [Check_simplicity True, Validated 0 2 True]\<rparr>"
  unfolding bend3_def bend2_def
  by (rule line3_process_line) (simp_all add: seg_dist_vals)

theorem is_simplest_marks_no_rejection_witness:
  "(\<exists>pl. process_line plane_engine 1 [bend3] 0 = Inr pl \<and>
      is_simplest (geoms pl ! 0) = (\<forall>a b. Validated a b False \<notin> set (trace pl)) \<and>
      is_simplest (geoms pl ! 0) \<and> trace pl = [Check_simplicity True, Validated 0 2 True]) \<and>
   pass_loop plane_engine 1 [0]
     \<lparr>sl_geoms = [bend2], rb_results = results0, feedback_log = [], polls = 0\<rparr> 0 =
   Inr (\<lparr>sl_geoms = [bend2], rb_results = results0, feedback_log = [], polls = 1\<rparr>, 0)"
proof -
  let ?S = "\<lparr>sl_geoms = [bend2], rb_results = results0, feedback_log = [], polls = 0\<rparr>"
  note T = is_simplest_marks_no_rejection[of 0 "[bend3]" plane_engine 1 ?S 0 "[]" 0]
  have k: "0 < length [bend3]" by simp
  from T k obtain pl where
    pl: "process_line plane_engine 1 [bend3] 0 = Inr pl"
    and f: "is_simplest (geoms pl ! 0) = (\<forall>a b. Validated a b False \<notin> set (trace pl))"
    by blast
  from pl bend3_process_line
  have "is_simplest (geoms pl ! 0)" "trace pl = [Check_simplicity True, Validated 0 2 True]"
    by (auto simp: bend2_def)
  with pl f have 1: "\<exists>pl. process_line plane_engine 1 [bend3] 0 = Inr pl \<and>
      is_simplest (geoms pl ! 0) = (\<forall>a b. Validated a b False \<notin> set (trace pl)) \<and>
      is_simplest (geoms pl ! 0) \<and> trace pl = [Check_simplicity True, Validated 0 2 True]"
    by blast
  have h: "is_simplest (sl_geoms ?S ! 0) \<and> \<not> isCanceled plane_engine (polls ?S)"
    by (simp add: bend2_def plane_engine_fields)
  from T h have "pass_loop plane_engine 1 [0] ?S 0 =
      pass_loop plane_engine 1 [] (?S\<lparr>polls := polls ?S + 1\<rparr>) 0" by blast
  then have 2: "pass_loop plane_engine 1 [0] ?S 0 =
     Inr (\<lparr>sl_geoms = [bend2], rb_results = results0, feedback_log = [], polls = 1\<rparr>, 0)"
    by simp
  from 1 2 show ?thesis by (rule conjI)
qed

text \<open>
  The claim C7 as stated fails: the pass below removes a vertex of the line, and the
  line is marked \<open>is_simplest\<close> all the same, since the validator rejected nothing.
\<close>

theorem is_simplest_after_change_counterexample:
  "process_line plane_engine 1
     [\<lparr>id_rb = 0, qgs_geom = [(0, 0), (1, 1), (2, 0)], is_simplest = False\<rparr>] 0 =
   Inr \<lparr>stack = [],
        geoms = [\<lparr>id_rb = 0, qgs_geom = [(0, 0), (2, 0)], is_simplest = True\<rparr>],
        nbr_vertice_deleted = 1,
        trace = [Check_simplicity True, Validated 0 2 True]\<rparr>"
  by (rule line3_process_line) (simp_all add: seg_dist_vals)

section \<open>Runs in which no span qualifies\<close>

text \<open>
  When no span of a line qualifies, the loop of \<^verbatim>\<open>process_line\<close> only splits spans:
  nothing is submitted to the validator and nothing is deleted.
\<close>

lemma within_only_splits:
  assumes k: "k < length gs"
    and nq: "never_qualifies env tolerance (qgs_geom (gs ! k))"
    and w: "within_process_line env tolerance gs k pl"
  shows "geoms pl = gs[k := (gs ! k)\<lparr>is_simplest := True\<rparr>] \<and>
         nbr_vertice_deleted pl = 0 \<and> trace pl = [] \<and>
         (\<forall>s \<in> set (stack pl).
            examined env tolerance (qgs_geom (gs ! k)) (init_stack (qgs_geom (gs ! k))) s)"
  using w
proof (induction rule: within_process_line.induct)
  case start
  show ?case by (simp add: pl_start_def examined.pushed)
next
  case (turn st st')
  let ?pts = "qgs_geom (gs ! k)"
  from turn.hyps(2) obtain first lasti rest where st: "stack st = (first, lasti) # rest"
    by (cases "stack st") auto
  from turn.IH st have ex: "examined env tolerance ?pts (init_stack ?pts) (first, lasti)"
    and exr: "\<forall>s \<in> set rest. examined env tolerance ?pts (init_stack ?pts) s" by simp_all
  show ?case
  proof (cases "first + 1 < lasti")
    case False
    from process_step_shortI[OF st False, of env tolerance ?pts k] turn.hyps(3)
    have "st' = st\<lparr>stack := rest\<rparr>" by simp
    with turn.IH exr show ?thesis by simp
  next
    case True
    from nq ex True obtain fi fd where
      ffp: "find_farthest_point env ?pts first lasti = Inr (fi, fd)" and far: "tolerance < fd"
      unfolding never_qualifies_def by blast
    from far have "\<not> fd \<le> tolerance" by simp
    from process_step_splitI[OF st True ffp this, of k] turn.hyps(3)
    have st': "st' = st\<lparr>stack := (fi, lasti) # (first, fi) # rest\<rparr>" by simp
    from examined.left_half[OF ex True ffp far] examined.right_half[OF ex True ffp far] exr
    have "\<forall>s \<in> set ((fi, lasti) # (first, fi) # rest).
            examined env tolerance ?pts (init_stack ?pts) s" by simp
    with turn.IH st' show ?thesis by simp
  qed
qed

lemma process_line_only_splits:
  assumes k: "k < length gs"
    and nq: "never_qualifies env tolerance (qgs_geom (gs ! k))"
  shows "\<exists>pl. process_line env tolerance gs k = Inr pl \<and>
           geoms pl = gs[k := (gs ! k)\<lparr>is_simplest := True\<rparr>] \<and>
           nbr_vertice_deleted pl = 0 \<and> trace pl = []"
proof -
  from process_line_result[OF k, of env tolerance] obtain pl where
    pl: "process_line env tolerance gs k = Inr pl"
    and w: "within_process_line env tolerance gs k pl" by blast
  from within_only_splits[OF k nq w] pl show ?thesis by simp
qed

text \<open>
  Conversely, a call of \<^verbatim>\<open>process_line\<close> that submits nothing to the validator has
  split every span that it examined.
\<close>

lemma examined_pop_short:
  assumes "examined env tolerance pts ((a, b) # rest) s" and "\<not> a + 1 < b"
  shows "s = (a, b) \<or> examined env tolerance pts rest s"
  using assms
proof (induction rule: examined.induct)
  case (pushed s)
  then show ?case by (auto intro: examined.pushed)
next
  case (left_half first lasti fi fd)
  then have "examined env tolerance pts rest (first, lasti)" by auto
  from examined.left_half[OF this left_half.hyps(2,3,4)] show ?case by simp
next
  case (right_half first lasti fi fd)
  then have "examined env tolerance pts rest (first, lasti)" by auto
  from examined.right_half[OF this right_half.hyps(2,3,4)] show ?case by simp
qed

lemma examined_pop_split:
  assumes "examined env tolerance pts ((a, b) # rest) s"
    and "find_farthest_point env pts a b = Inr (m, d)"
  shows "s = (a, b) \<or> examined env tolerance pts ((m, b) # (a, m) # rest) s"
  using assms
proof (induction rule: examined.induct)
  case (pushed s)
  then show ?case by (auto intro: examined.pushed)
next
  case (left_half first lasti fi fd)
  show ?case
  proof (cases "(first, lasti) = (a, b)")
    case True
    with left_half.hyps(3) left_half.prems have "fi = m" by simp
    with True show ?thesis by (auto intro: examined.pushed)
  next
    case False
    with left_half have "examined env tolerance pts ((m, b) # (a, m) # rest) (first, lasti)" by blast
    from examined.left_half[OF this left_half.hyps(2,3,4)] show ?thesis by simp
  qed
next
  case (right_half first lasti fi fd)
  show ?case
  proof (cases "(first, lasti) = (a, b)")
    case True
    with right_half.hyps(3) right_half.prems have "fi = m" by simp
    with True show ?thesis by (auto intro: examined.pushed)
  next
    case False
    with right_half have "examined env tolerance pts ((m, b) # (a, m) # rest) (first, lasti)" by blast
    from examined.right_half[OF this right_half.hyps(2,3,4)] show ?thesis by simp
  qed
qed

lemma examined_empty: "examined env tolerance pts [] s \<Longrightarrow> False"
  by (induction rule: examined.induct) auto

lemma process_step_trace:
  assumes "process_step env tolerance pts k st = Inr st'" and "stack st \<noteq> []"
  shows "\<exists>evs. trace st' = trace st @ evs"
proof -
  from assms(2) obtain first lasti rest where st: "stack st = (first, lasti) # rest"
    by (cases "stack st") auto
  from assms(1) st show ?thesis by (cases rule: process_step_cases) simp_all
qed

lemma process_step_silent:
  assumes "process_step env tolerance pts k st = Inr st'"
    and "stack st = (first, lasti) # rest" and "trace st' = trace st"
  shows "(\<not> first + 1 < lasti \<and> stack st' = rest) \<or>
         (\<exists>fi fd. first + 1 < lasti \<and> find_farthest_point env pts first lasti = Inr (fi, fd) \<and>
                  tolerance < fd \<and> stack st' = (fi, lasti) # (first, fi) # rest)"
  using assms(1,2)
proof (cases rule: process_step_cases)
  case short
  then show ?thesis by simp
next
  case (split fi fd)
  then show ?thesis by simp
next
  case (collapse fi fd evs)
  with assms(3) show ?thesis by simp
next
  case (reject fi fd evs)
  with assms(3) show ?thesis by simp
qed

lemma process_loop_trace:
  "process_loop env tolerance pts k st = Inr pl \<Longrightarrow> \<exists>evs. trace pl = trace st @ evs"
proof (induction env tolerance pts k st rule: process_loop.induct)
  case (1 env tolerance pts k st)
  show ?case
  proof (cases "stack st = []")
    case True
    with "1.prems" show ?thesis by (simp add: process_loop.simps)
  next
    case False
    with "1.prems" obtain st' where
      s: "process_step env tolerance pts k st = Inr st'"
      and l: "process_loop env tolerance pts k st' = Inr pl"
      by (cases "process_step env tolerance pts k st")
         (simp_all add: process_loop.simps[of env tolerance pts k st])
    from "1.IH"[OF False s l] process_step_trace[OF s False] show ?thesis by auto
  qed
qed

lemma process_loop_silent:
  "process_loop env tolerance pts k st = Inr pl \<Longrightarrow> trace pl = trace st \<Longrightarrow>
   examined env tolerance pts (stack st) (first, lasti) \<Longrightarrow> first + 1 < lasti \<Longrightarrow>
   \<exists>fi fd. find_farthest_point env pts first lasti = Inr (fi, fd) \<and> tolerance < fd"
proof (induction env tolerance pts k st rule: process_loop.induct)
  case (1 env tolerance pts k st)
  show ?case
  proof (cases "stack st")
    case Nil
    with "1.prems"(3) have "examined env tolerance pts [] (first, lasti)" by simp
    from examined_empty[OF this] show ?thesis ..
  next
    case (Cons s rest)
    obtain a b where s: "s = (a, b)" by (cases s)
    from Cons s have st: "stack st = (a, b) # rest" by simp
    then have ne: "stack st \<noteq> []" by simp
    with "1.prems"(1) obtain st' where
      ps: "process_step env tolerance pts k st = Inr st'"
      and l: "process_loop env tolerance pts k st' = Inr pl"
      by (cases "process_step env tolerance pts k st")
         (simp_all add: process_loop.simps[of env tolerance pts k st])
    from process_step_trace[OF ps ne] obtain e1 where e1: "trace st' = trace st @ e1" by blast
    from process_loop_trace[OF l] obtain e2 where e2: "trace pl = trace st' @ e2" by blast
    from "1.prems"(2) have "trace st @ e1 @ e2 = trace st" unfolding e2 e1 by simp
    then have "e1 = []" and "e2 = []" by simp_all
    with e1 e2 have t: "trace st' = trace st" and t': "trace pl = trace st'" by simp_all
    from "1.prems"(3) st have ex: "examined env tolerance pts ((a, b) # rest) (first, lasti)"
      by simp
    from process_step_silent[OF ps st t] show ?thesis
    proof (elim disjE exE conjE)
      assume sh: "\<not> a + 1 < b" and r: "stack st' = rest"
      from examined_pop_short[OF ex sh] sh "1.prems"(4) r
      have "examined env tolerance pts (stack st') (first, lasti)" by auto
      from "1.IH"[OF ne ps l t' this "1.prems"(4)] show ?thesis .
    next
      fix fi fd
      assume lt: "a + 1 < b" and ffp: "find_farthest_point env pts a b = Inr (fi, fd)"
        and far: "tolerance < fd" and r: "stack st' = (fi, b) # (a, fi) # rest"
      from examined_pop_split[OF ex ffp] show ?thesis
      proof
        assume "(first, lasti) = (a, b)"
        with ffp far show ?thesis by auto
      next
        assume "examined env tolerance pts ((fi, b) # (a, fi) # rest) (first, lasti)"
        with r have "examined env tolerance pts (stack st') (first, lasti)" by simp
        from "1.IH"[OF ne ps l t' this "1.prems"(4)] show ?thesis .
      qed
    qed
  qed
qed

lemma process_line_silent:
  assumes "process_line env tolerance gs k = Inr pl" and "trace pl = []"
  shows "never_qualifies env tolerance (qgs_geom (gs ! k))"
  unfolding never_qualifies_def
proof (intro allI impI, elim conjE)
  fix first lasti
  let ?pts = "qgs_geom (gs ! k)"
  assume ex: "examined env tolerance ?pts (init_stack ?pts) (first, lasti)"
    and lt: "first + 1 < lasti"
  from assms(1) have l: "process_loop env tolerance ?pts k (pl_start gs k) = Inr pl"
    by (simp add: process_line_def pl_start_def Let_def)
  from assms(2) have t: "trace pl = trace (pl_start gs k)" by (simp add: pl_start_def)
  from ex have "examined env tolerance ?pts (stack (pl_start gs k)) (first, lasti)"
    by (simp add: pl_start_def)
  from process_loop_silent[OF l t this lt]
  show "\<exists>fi fd. find_farthest_point env ?pts first lasti = Inr (fi, fd) \<and> tolerance < fd" .
qed


lemma visits_Cons:
  "(\<forall>p < length (i # rest). (\<forall>q \<le> p. \<not> C (n + q)) \<and> \<not> S ((i # rest) ! p) \<longrightarrow> N ((i # rest) ! p)) =
   ((\<not> C n \<and> \<not> S i \<longrightarrow> N i) \<and>
    (\<not> C n \<longrightarrow> (\<forall>p < length rest. (\<forall>q \<le> p. \<not> C (Suc n + q)) \<and> \<not> S (rest ! p) \<longrightarrow> N (rest ! p))))"
  (is "?L = ?R")
proof
  assume l: ?L
  have 1: "\<not> C n \<and> \<not> S i \<longrightarrow> N i" using l[rule_format, of 0] by simp
  have 2: "\<not> C n \<longrightarrow> (\<forall>p < length rest. (\<forall>q \<le> p. \<not> C (Suc n + q)) \<and> \<not> S (rest ! p) \<longrightarrow> N (rest ! p))"
  proof (intro allI impI, elim conjE)
    fix p
    assume nc: "\<not> C n" and p: "p < length rest" and c: "\<forall>q \<le> p. \<not> C (Suc n + q)"
      and s: "\<not> S (rest ! p)"
    have "\<forall>q \<le> Suc p. \<not> C (n + q)"
    proof (intro allI impI)
      fix q assume "q \<le> Suc p"
      with nc c show "\<not> C (n + q)" by (cases q) auto
    qed
    with l[rule_format, of "Suc p"] p s show "N (rest ! p)" by simp
  qed
  from 1 2 show ?R by simp
next
  assume r: ?R
  show ?L
  proof (intro allI impI, elim conjE)
    fix p
    assume p: "p < length (i # rest)" and c: "\<forall>q \<le> p. \<not> C (n + q)"
      and s: "\<not> S ((i # rest) ! p)"
    from c have nc: "\<not> C n" using c[rule_format, of 0] by simp
    show "N ((i # rest) ! p)"
    proof (cases p)
      case 0
      with r nc s show ?thesis by simp
    next
      case (Suc p')
      have "\<forall>q \<le> p'. \<not> C (Suc n + q)"
      proof (intro allI impI)
        fix q assume "q \<le> p'"
        with c[rule_format, of "Suc q"] Suc show "\<not> C (Suc n + q)" by simp
      qed
      with r nc p s Suc show ?thesis by simp
    qed
  qed
qed

lemma pass_loop_only_splits:
  assumes "\<forall>i \<in> set is. i < length (sl_geoms st)" and "distinct is"
    and "\<forall>p < length is. (\<forall>q \<le> p. \<not> isCanceled env (polls st + q)) \<and>
             \<not> is_simplest (sl_geoms st ! (is ! p)) \<longrightarrow>
           never_qualifies env tolerance (qgs_geom (sl_geoms st ! (is ! p)))"
  shows "\<exists>st'. pass_loop env tolerance is st nbr = Inr (st', nbr) \<and>
           map qgs_geom (sl_geoms st') = map qgs_geom (sl_geoms st) \<and>
           rb_results st' = rb_results st \<and> feedback_log st' = feedback_log st"
  using assms
proof (induction "is" arbitrary: st)
  case Nil
  then show ?case by simp
next
  case (Cons i rest)
  let ?gs = "sl_geoms st"
  let ?st1 = "st\<lparr>polls := polls st + 1\<rparr>"
  show ?case
  proof (cases "isCanceled env (polls st)")
    case True
    then show ?thesis by simp
  next
    case nc: False
    from Cons.prems(3) nc have
      h0: "\<not> is_simplest (?gs ! i) \<longrightarrow> never_qualifies env tolerance (qgs_geom (?gs ! i))"
      and hr: "\<forall>p < length rest. (\<forall>q \<le> p. \<not> isCanceled env (Suc (polls st) + q)) \<and>
                 \<not> is_simplest (?gs ! (rest ! p)) \<longrightarrow>
               never_qualifies env tolerance (qgs_geom (?gs ! (rest ! p)))"
      unfolding visits_Cons[of i rest "isCanceled env" "polls st" "\<lambda>j. is_simplest (?gs ! j)"
          "\<lambda>j. never_qualifies env tolerance (qgs_geom (?gs ! j))"]
      by simp_all
    from Cons.prems(2) have d: "distinct rest" and ni: "i \<notin> set rest" by simp_all
    show ?thesis
    proof (cases "is_simplest (?gs ! i)")
      case True
      from Cons.prems(1) have a: "\<forall>i \<in> set rest. i < length (sl_geoms ?st1)" by simp
      from hr have b: "\<forall>p < length rest. (\<forall>q \<le> p. \<not> isCanceled env (polls ?st1 + q)) \<and>
                 \<not> is_simplest (sl_geoms ?st1 ! (rest ! p)) \<longrightarrow>
               never_qualifies env tolerance (qgs_geom (sl_geoms ?st1 ! (rest ! p)))" by simp
      from Cons.IH[OF a d b] nc True show ?thesis by (simp add: Let_def)
    next
      case False
      from Cons.prems(1) have i: "i < length ?gs" by simp
      from h0 False have nq: "never_qualifies env tolerance (qgs_geom (?gs ! i))" by simp
      from process_line_only_splits[OF i nq] obtain pl where
        pl: "process_line env tolerance ?gs i = Inr pl"
        and g: "geoms pl = ?gs[i := (?gs ! i)\<lparr>is_simplest := True\<rparr>]"
        and n: "nbr_vertice_deleted pl = 0" and t: "trace pl = []" by blast
      from g have m: "map qgs_geom (geoms pl) = map qgs_geom ?gs"
        by (simp add: map_update_same)
      let ?st2 = "?st1\<lparr>sl_geoms := geoms pl, feedback_log := feedback_log ?st1 @ trace pl\<rparr>"
      from g Cons.prems(1) have a: "\<forall>i \<in> set rest. i < length (sl_geoms ?st2)" by simp
      have e: "\<forall>p < length rest. geoms pl ! (rest ! p) = ?gs ! (rest ! p)"
      proof (intro allI impI)
        fix p assume "p < length rest"
        then have "rest ! p \<in> set rest" by simp
        with ni have "rest ! p \<noteq> i" by auto
        then show "geoms pl ! (rest ! p) = ?gs ! (rest ! p)" unfolding g by simp
      qed
      from hr e have b: "\<forall>p < length rest. (\<forall>q \<le> p. \<not> isCanceled env (polls ?st2 + q)) \<and>
                 \<not> is_simplest (sl_geoms ?st2 ! (rest ! p)) \<longrightarrow>
               never_qualifies env tolerance (qgs_geom (sl_geoms ?st2 ! (rest ! p)))" by simp
      from Cons.IH[OF a d b] obtain st' where
        "pass_loop env tolerance rest ?st2 nbr = Inr (st', nbr)"
        "map qgs_geom (sl_geoms st') = map qgs_geom (sl_geoms ?st2)"
        "rb_results st' = rb_results ?st2" "feedback_log st' = feedback_log ?st2"
        by blast
      with nc False pl n t m show ?thesis by (simp add: Let_def)
    qed
  qed
qed

lemma pass_loop_log:
  "pass_loop env tolerance is st nbr = Inr (st', nbr') \<Longrightarrow>
   \<exists>evs. feedback_log st' = feedback_log st @ evs"
proof (induction "is" arbitrary: st nbr)
  case Nil
  then show ?case by simp
next
  case (Cons i rest)
  let ?st1 = "st\<lparr>polls := polls st + 1\<rparr>"
  show ?case
  proof (cases "isCanceled env (polls st)")
    case True
    with Cons.prems show ?thesis by auto
  next
    case nc: False
    show ?thesis
    proof (cases "is_simplest (sl_geoms st ! i)")
      case True
      with nc Cons.prems have "pass_loop env tolerance rest ?st1 nbr = Inr (st', nbr')"
        by (simp add: Let_def)
      from Cons.IH[OF this] show ?thesis by simp
    next
      case False
      with nc Cons.prems obtain pl where
        pl: "process_line env tolerance (sl_geoms st) i = Inr pl"
        and r: "pass_loop env tolerance rest
                 (?st1\<lparr>sl_geoms := geoms pl, feedback_log := feedback_log ?st1 @ trace pl\<rparr>)
                 (nbr + nbr_vertice_deleted pl) = Inr (st', nbr')"
        by (cases "process_line env tolerance (sl_geoms st) i") (simp_all add: Let_def)
      from Cons.IH[OF r] show ?thesis by auto
    qed
  qed
qed

lemma pass_loop_silent:
  assumes "pass_loop env tolerance is st nbr = Inr (st', nbr')"
    and "feedback_log st' = feedback_log st"
    and "\<forall>i \<in> set is. i < length (sl_geoms st)" and "distinct is"
  shows "\<forall>p < length is. (\<forall>q \<le> p. \<not> isCanceled env (polls st + q)) \<and>
             \<not> is_simplest (sl_geoms st ! (is ! p)) \<longrightarrow>
           never_qualifies env tolerance (qgs_geom (sl_geoms st ! (is ! p)))"
  using assms
proof (induction "is" arbitrary: st nbr)
  case Nil
  then show ?case by simp
next
  case (Cons i rest)
  let ?gs = "sl_geoms st"
  let ?st1 = "st\<lparr>polls := polls st + 1\<rparr>"
  from Cons.prems(4) have d: "distinct rest" and ni: "i \<notin> set rest" by simp_all
  have "(\<not> isCanceled env (polls st) \<and> \<not> is_simplest (?gs ! i) \<longrightarrow>
           never_qualifies env tolerance (qgs_geom (?gs ! i))) \<and>
        (\<not> isCanceled env (polls st) \<longrightarrow>
           (\<forall>p < length rest. (\<forall>q \<le> p. \<not> isCanceled env (Suc (polls st) + q)) \<and>
                 \<not> is_simplest (?gs ! (rest ! p)) \<longrightarrow>
               never_qualifies env tolerance (qgs_geom (?gs ! (rest ! p)))))"
  proof (cases "isCanceled env (polls st)")
    case True
    then show ?thesis by simp
  next
    case nc: False
    show ?thesis
    proof (cases "is_simplest (?gs ! i)")
      case True
      with nc Cons.prems(1) have r: "pass_loop env tolerance rest ?st1 nbr = Inr (st', nbr')"
        by (simp add: Let_def)
      from Cons.prems(2) have l: "feedback_log st' = feedback_log ?st1" by simp
      from Cons.prems(3) have a: "\<forall>i \<in> set rest. i < length (sl_geoms ?st1)" by simp
      from Cons.IH[OF r l a d] True show ?thesis by simp
    next
      case False
      let ?st2' = "\<lambda>pl. ?st1\<lparr>sl_geoms := geoms pl, feedback_log := feedback_log ?st1 @ trace pl\<rparr>"
      from False nc Cons.prems(1) obtain pl where
        pl: "process_line env tolerance ?gs i = Inr pl"
        and r: "pass_loop env tolerance rest (?st2' pl) (nbr + nbr_vertice_deleted pl) =
                  Inr (st', nbr')"
        by (cases "process_line env tolerance ?gs i") (simp_all add: Let_def)
      from pass_loop_log[OF r] obtain evs where
        evs: "feedback_log st' = feedback_log (?st2' pl) @ evs" by blast
      from Cons.prems(2) have "feedback_log st @ trace pl @ evs = feedback_log st"
        unfolding evs by simp
      then have t: "trace pl = []" and "evs = []" by simp_all
      with evs have l: "feedback_log st' = feedback_log (?st2' pl)" by simp
      from Cons.prems(3) have i: "i < length ?gs" by simp
      from process_line_silent[OF pl t] have nq: "never_qualifies env tolerance (qgs_geom (?gs ! i))" .
      from process_line_only_splits[OF i nq] pl have
        g: "geoms pl = ?gs[i := (?gs ! i)\<lparr>is_simplest := True\<rparr>]" by simp
      from g Cons.prems(3) have a: "\<forall>i \<in> set rest. i < length (sl_geoms (?st2' pl))" by simp
      have e: "\<forall>p < length rest. geoms pl ! (rest ! p) = ?gs ! (rest ! p)"
      proof (intro allI impI)
        fix p assume "p < length rest"
        then have "rest ! p \<in> set rest" by simp
        with ni have "rest ! p \<noteq> i" by auto
        then show "geoms pl ! (rest ! p) = ?gs ! (rest ! p)" unfolding g by simp
      qed
      from Cons.IH[OF r l a d] e nq show ?thesis by simp
    qed
  qed
  then show ?case
    unfolding visits_Cons[of i rest "isCanceled env" "polls st" "\<lambda>j. is_simplest (?gs ! j)"
          "\<lambda>j. never_qualifies env tolerance (qgs_geom (?gs ! j))"] .
qed


lemma first_pass_visits:
  "(\<forall>p < length [0 ..< length (sl_geoms st)]. (\<forall>q \<le> p. \<not> isCanceled env (polls st + q)) \<and>
       \<not> is_simplest (sl_geoms st ! ([0 ..< length (sl_geoms st)] ! p)) \<longrightarrow>
     never_qualifies env tolerance (qgs_geom (sl_geoms st ! ([0 ..< length (sl_geoms st)] ! p)))) =
   (\<forall>i. processed env st i \<longrightarrow> never_qualifies env tolerance (qgs_geom (sl_geoms st ! i)))"
  by (auto simp: processed_def)

lemma simplify_lines_only_splits:
  assumes "\<forall>i. processed env st i \<longrightarrow> never_qualifies env tolerance (qgs_geom (sl_geoms st ! i))"
  shows "\<exists>st'. simplify_lines env tolerance st = Some (Inr st') \<and>
     map qgs_geom (sl_geoms st') = map qgs_geom (sl_geoms st) \<and>
     nbr_vertice_deleted_rb (rb_results st') = nbr_vertice_deleted_rb (rb_results st) \<and>
     nbr_pass (rb_results st') = nbr_pass (rb_results st) + 1 \<and>
     feedback_log st' =
       feedback_log st @ [Info_iteration (nbr_pass (rb_results st) + 1), Info_vertice_deleted 0]"
proof -
  let ?st1 = "st\<lparr>rb_results := (rb_results st)\<lparr>nbr_pass := nbr_pass (rb_results st) + 1\<rparr>,
                 feedback_log := feedback_log st @ [Info_iteration (nbr_pass (rb_results st) + 1)]\<rparr>"
  let ?is = "[0 ..< length (sl_geoms ?st1)]"
  have a: "\<forall>i \<in> set ?is. i < length (sl_geoms ?st1)" by simp
  have d: "distinct ?is" by simp
  from assms have b: "\<forall>p < length ?is. (\<forall>q \<le> p. \<not> isCanceled env (polls ?st1 + q)) \<and>
       \<not> is_simplest (sl_geoms ?st1 ! (?is ! p)) \<longrightarrow>
     never_qualifies env tolerance (qgs_geom (sl_geoms ?st1 ! (?is ! p)))"
    unfolding first_pass_visits[symmetric] by simp
  from pass_loop_only_splits[OF a d b, of 0] obtain st2 where
    p: "pass_loop env tolerance ?is ?st1 0 = Inr (st2, 0)"
    and m: "map qgs_geom (sl_geoms st2) = map qgs_geom (sl_geoms ?st1)"
    and r: "rb_results st2 = rb_results ?st1" and f: "feedback_log st2 = feedback_log ?st1"
    by blast
  let ?st3 = "st2\<lparr>feedback_log := feedback_log st2 @ [Info_vertice_deleted 0]\<rparr>"
  from p have "run_pass env tolerance st = Inr (?st3, 0)"
    by (simp add: run_pass_def Let_def)
  then have "simplify_lines env tolerance st = Some (Inr ?st3)"
    by (subst simplify_lines.simps) simp
  with m r f show ?thesis by simp
qed

lemma simplify_lines_silent:
  assumes s: "simplify_lines env tolerance st = Some (Inr st')"
    and np: "nbr_pass (rb_results st') = nbr_pass (rb_results st) + 1"
    and fl: "feedback_log st' =
       feedback_log st @ [Info_iteration (nbr_pass (rb_results st) + 1), Info_vertice_deleted 0]"
  shows "\<forall>i. processed env st i \<longrightarrow> never_qualifies env tolerance (qgs_geom (sl_geoms st ! i))"
proof -
  let ?st1 = "st\<lparr>rb_results := (rb_results st)\<lparr>nbr_pass := nbr_pass (rb_results st) + 1\<rparr>,
                 feedback_log := feedback_log st @ [Info_iteration (nbr_pass (rb_results st) + 1)]\<rparr>"
  let ?is = "[0 ..< length (sl_geoms ?st1)]"
  from simplify_lines_terminates[of env tolerance st] s obtain ns where
    rp: "run_passes env tolerance st ns st'" by auto
  from run_passes_effect[OF rp] np have "int (length ns) = 1" by simp
  then have len: "length ns = 1" by simp
  from rp have "run_pass env tolerance st = Inr (st', 0)"
  proof (cases rule: run_passes.cases)
    case final
    then show ?thesis by simp
  next
    case (again st3 n ns')
    from run_passes_effect[OF again(4)] have "ns' \<noteq> []" by simp
    with again(1) len show ?thesis by simp
  qed
  then obtain st2 where p: "pass_loop env tolerance ?is ?st1 0 = Inr (st2, 0)"
    and st': "st' = st2\<lparr>feedback_log := feedback_log st2 @ [Info_vertice_deleted 0]\<rparr>"
    by (cases "pass_loop env tolerance ?is ?st1 0") (auto simp: run_pass_def Let_def)
  from fl st' have l: "feedback_log st2 = feedback_log ?st1" by simp
  have a: "\<forall>i \<in> set ?is. i < length (sl_geoms ?st1)" by simp
  have d: "distinct ?is" by simp
  from pass_loop_silent[OF p l a d] show ?thesis
    unfolding first_pass_visits[symmetric] by simp
qed

lemma init_stack_in_range:
  "s \<in> set (init_stack pts) \<Longrightarrow> 0 \<le> fst s \<and> snd s < int (length pts)"
  by (auto simp: init_stack_def Let_def split: if_splits)

lemma examined_in_range:
  assumes "examined env tolerance pts (init_stack pts) s"
  shows "0 \<le> fst s \<and> snd s < int (length pts)"
  using assms
proof (induction rule: examined.induct)
  case (pushed s)
  then show ?case by (rule init_stack_in_range)
next
  case (left_half first lasti fi fd)
  from find_farthest_point_between[OF left_half.hyps(3,2)] left_half.IH show ?case by simp
next
  case (right_half first lasti fi fd)
  from find_farthest_point_between[OF right_half.hyps(3,2)] right_half.IH show ?case by simp
qed

text \<open>
  A condition on the points alone that is enough: every span of more than two points
  has some interior vertex farther than the tolerance from its chord.
\<close>

lemma far_vertex_never_qualifies:
  assumes "\<forall>l < length pts. \<forall>i. i + 1 < l \<longrightarrow>
             (\<exists>j. i < j \<and> j < l \<and> tolerance < distance env (pts ! i) (pts ! l) (pts ! j))"
  shows "never_qualifies env tolerance pts"
  unfolding never_qualifies_def
proof (intro allI impI)
  fix first lasti
  assume h: "examined env tolerance pts (init_stack pts) (first, lasti) \<and> first + 1 < lasti"
  from examined_in_range[of env tolerance pts "(first, lasti)"] h
  have f0: "0 \<le> first" and ll: "lasti < int (length pts)" by simp_all
  from h have lt: "first + 1 < lasti" by simp
  from find_farthest_point_spec[OF f0 ll lt, of env] obtain fi fd where
    ffp: "find_farthest_point env pts first lasti = Inr (fi, fd)"
    and all: "\<forall>j. first < j \<and> j < lasti \<longrightarrow> chord_dist env pts first lasti j \<le> fd" by blast
  from f0 ll lt have "nat lasti < length pts" "nat first + 1 < nat lasti" by simp_all
  with assms obtain j where j: "nat first < j" "j < nat lasti"
    "tolerance < distance env (pts ! nat first) (pts ! nat lasti) (pts ! j)" by blast
  from j(1,2) f0 have "first < int j \<and> int j < lasti" by linarith
  with all have "chord_dist env pts first lasti (int j) \<le> fd" by blast
  with j(3) have "tolerance < fd" by (simp add: chord_dist_def)
  with ffp show "\<exists>fi fd. find_farthest_point env pts first lasti = Inr (fi, fd) \<and> tolerance < fd"
    by blast
qed

text \<open>A ring of fewer than 5 points starts with an empty stack.\<close>

lemma small_ring_never_qualifies:
  assumes "isClosed pts" and "length pts < 5"
  shows "never_qualifies env tolerance pts"
proof -
  from assms have "init_stack pts = []" by (simp add: init_stack_def Let_def)
  then show ?thesis unfolding never_qualifies_def by (auto dest: examined_empty)
qed

lemma zigzag4_distances:
  "segment_distance (0, 0) (1, 0) (1, 1) = 1"
  "0 < segment_distance (1, 1) (2, 0) (1, 0)"
  by (simp_all add: segment_distance_def Let_def)

lemma zigzag4_never_qualifies: "never_qualifies plane_engine 0 (qgs_geom zigzag4)"
proof (rule far_vertex_never_qualifies, intro allI impI)
  fix l i :: nat
  assume "l < length (qgs_geom zigzag4)" and "i + 1 < l"
  then consider "l = 2 \<and> i = 0" | "l = 3 \<and> i = 0" | "l = 3 \<and> i = 1"
    by (simp add: zigzag4_def) arith
  then show "\<exists>j. i < j \<and> j < l \<and>
      0 < distance plane_engine (qgs_geom zigzag4 ! i) (qgs_geom zigzag4 ! l) (qgs_geom zigzag4 ! j)"
  proof cases
    case 1
    then show ?thesis
      by (intro exI[of _ 1]) (simp add: zigzag4_def plane_engine_fields zigzag4_distances)
  next
    case 2
    then show ?thesis
      by (intro exI[of _ 1]) (simp add: zigzag4_def plane_engine_fields seg_dist_vals)
  next
    case 3
    then show ?thesis
      by (intro exI[of _ 2]) (simp add: zigzag4_def plane_engine_fields zigzag4_distances)
  qed
qed

text \<open>
  C5, as amended. With tolerance 0 a span qualifies for collapse exactly when its
  farthest interior point is at distance 0 from the chord (the test is
  \<open>farthest_dist \<le> tolerance\<close>). A run with tolerance 0 is a no-op (it returns after
  one pass, submits no span to the validator, deletes no vertex and leaves the points
  of every geometry as they were) if and only if no span qualifies in any geometry
  that the first pass hands to \<^verbatim>\<open>process_line\<close>: every span of more than two points
  that the loop examines there has its farthest interior point at a positive
  distance. This is so in particular when every span of more than two points of
  every line has some interior vertex at a positive distance from its chord, and for
  rings of fewer than 5 points.
\<close>

theorem tolerance_zero_no_op:
  "(\<exists>st'. simplify_lines env 0 st = Some (Inr st') \<and>
      map qgs_geom (sl_geoms st') = map qgs_geom (sl_geoms st) \<and>
      nbr_vertice_deleted_rb (rb_results st') = nbr_vertice_deleted_rb (rb_results st) \<and>
      nbr_pass (rb_results st') = nbr_pass (rb_results st) + 1 \<and>
      feedback_log st' =
        feedback_log st @ [Info_iteration (nbr_pass (rb_results st) + 1), Info_vertice_deleted 0]) =
   (\<forall>i. processed env st i \<longrightarrow> never_qualifies env 0 (qgs_geom (sl_geoms st ! i)))"
  (is "?run = ?quiet")
proof
  assume ?run
  then obtain st' where "simplify_lines env 0 st = Some (Inr st')"
    and "nbr_pass (rb_results st') = nbr_pass (rb_results st) + 1"
    and "feedback_log st' =
        feedback_log st @ [Info_iteration (nbr_pass (rb_results st) + 1), Info_vertice_deleted 0]"
    by blast
  then show ?quiet by (rule simplify_lines_silent)
next
  assume ?quiet
  then show ?run by (rule simplify_lines_only_splits)
qed

theorem tolerance_zero_no_op_witness:
  "processed plane_engine
     \<lparr>sl_geoms = [zigzag4], rb_results = results0, feedback_log = [], polls = 0\<rparr> 0 \<and>
   never_qualifies plane_engine 0 (qgs_geom zigzag4) \<and>
   (\<exists>st'. simplify_lines plane_engine 0
            \<lparr>sl_geoms = [zigzag4], rb_results = results0, feedback_log = [], polls = 0\<rparr> =
          Some (Inr st') \<and>
      map qgs_geom (sl_geoms st') = [[(0, 0), (1, 1), (1, 0), (2, 0)]] \<and>
      nbr_vertice_deleted_rb (rb_results st') = 0 \<and> nbr_pass (rb_results st') = 1 \<and>
      feedback_log st' = [Info_iteration 1, Info_vertice_deleted 0])"
proof -
  let ?S = "\<lparr>sl_geoms = [zigzag4], rb_results = results0, feedback_log = [], polls = 0\<rparr>"
  have p: "processed plane_engine ?S 0"
    by (simp add: processed_def zigzag4_def plane_engine_fields)
  have h: "\<forall>i. processed plane_engine ?S i \<longrightarrow>
             never_qualifies plane_engine 0 (qgs_geom (sl_geoms ?S ! i))"
    using zigzag4_never_qualifies by (simp add: processed_def)
  from tolerance_zero_no_op[of plane_engine ?S, THEN iffD2, OF h]
  have "\<exists>st'. simplify_lines plane_engine 0 ?S = Some (Inr st') \<and>
      map qgs_geom (sl_geoms st') = [[(0, 0), (1, 1), (1, 0), (2, 0)]] \<and>
      nbr_vertice_deleted_rb (rb_results st') = 0 \<and> nbr_pass (rb_results st') = 1 \<and>
      feedback_log st' = [Info_iteration 1, Info_vertice_deleted 0]"
    by (simp add: zigzag4_def results0_def)
  with p zigzag4_never_qualifies show ?thesis by simp
qed

text \<open>
  The claim C5 as stated fails: the middle point of this straight line is at distance
  0 from the chord, the span qualifies with tolerance 0, and the run deletes the
  point.
\<close>

theorem tolerance_zero_collinear_counterexample:
  "simplify_lines plane_engine 0
     \<lparr>sl_geoms = [\<lparr>id_rb = 0, qgs_geom = [(0, 0), (1, 0), (2, 0)], is_simplest = False\<rparr>],
      rb_results = results0, feedback_log = [], polls = 0\<rparr> =
   Some (Inr \<lparr>sl_geoms = [\<lparr>id_rb = 0, qgs_geom = [(0, 0), (2, 0)], is_simplest = True\<rparr>],
              rb_results = results0\<lparr>nbr_vertice_deleted_rb := 1, nbr_pass := 2\<rparr>,
              feedback_log =
                [Info_iteration 1, Check_simplicity True, Validated 0 2 True,
                 Info_vertice_deleted 1, Info_iteration 2, Info_vertice_deleted 0],
              polls = 2\<rparr>)"
  by (subst line3_simplify_lines) (simp_all add: seg_dist_vals results0_def)

section \<open>The integrity check of the index\<close>

lemma plane_engine_features:
  "create_gs_feature plane_engine = (\<lambda>qs. qs)"
  "get_rb_geom plane_engine = (\<lambda>f. [\<lparr>id_rb = 0, qgs_geom = f, is_simplest = False\<rparr>])"
  "get_qgs_feature plane_engine = (\<lambda>f gs. qgs_geom (hd gs))"
  "validate_integrity plane_engine = (\<lambda>gs. True)"
  by (simp_all add: plane_engine_def)

text \<open>
  C6. A run with \<open>validate_structure = True\<close>: the field \<^verbatim>\<open>is_structure_valid\<close> of the
  results is still \<^verbatim>\<open>None\<close> at the end, and the events of the run hold no call of
  \<^verbatim>\<open>validate_integrity\<close>.
\<close>

theorem reduce_never_validates_integrity:
  "reduce plane_engine [[(0, 0), (1, 1), (2, 0)]] 1 True =
   Some (Inr (\<lparr>in_nbr_features = Some 1, out_nbr_features = Some 1, nbr_vertice_deleted_rb = 1,
               qgs_features_out = Some [[(0, 0), (2, 0)]], nbr_pass = 2,
               is_structure_valid = None\<rparr>,
              [Info_iteration 1, Check_simplicity True, Validated 0 2 True,
               Info_vertice_deleted 1, Info_iteration 2, Info_vertice_deleted 0]))"
  unfolding reduce_def pre_simplification_process_def Let_def plane_engine_features
  by (simp, subst line3_simplify_lines) (simp_all add: seg_dist_vals plane_engine_features)

end
